theory Spec2Isabelle
  imports
    Complex_Main
    "HOL-Library.Word"
    "HOL-Library.AList"
    "HOL-Library.Log_Nat"
    "HOL-Library.Product_Lexorder"
begin

chapter \<open>The Beeswax log parser of AdVantage (package ingestion)\<close>

text \<open>
  The development follows \<^verbatim>\<open>ParseBeeswaxLog\<close> (the CSV ingestion of the backend) and the
  result store of \<^verbatim>\<open>LogProcessorService\<close> (log\_processor.go). Go strings are byte
  strings, modelled as \<^typ>\<open>string\<close>; Go's \<^verbatim>\<open>int\<close> and \<^verbatim>\<open>int64\<close> are 64-bit words
  (the backend image is a 64-bit Go 1.23), read as signed numbers with \<^term>\<open>sint\<close>.
\<close>

type_synonym go_int = "64 word"

section \<open>Library functions the parser calls\<close>

subsection \<open>strconv\<close>

definition isDigit :: "char \<Rightarrow> bool" where
  "isDigit c = (48 \<le> (of_char c :: nat) \<and> (of_char c :: nat) \<le> 57)"

definition digitVal :: "char \<Rightarrow> nat" where
  "digitVal c = (of_char c :: nat) - 48"

datatype num_error = ErrSyntax | ErrRange

definition maxUint64 :: nat where
  "maxUint64 = 2 ^ 64 - 1"

text \<open>
  The digit loop of \<^verbatim>\<open>strconv.ParseUint(s, 10, 64)\<close>: it stops at the first byte that is
  not a decimal digit with a syntax error and the value 0, and at the first digit that
  takes the number out of 64 bits with a range error and the value \<open>2^64 - 1\<close>, without
  looking at the bytes after it.
\<close>

fun parseUintDigits :: "nat \<Rightarrow> string \<Rightarrow> nat \<times> num_error option" where
  "parseUintDigits n [] = (n, None)"
| "parseUintDigits n (c # cs) =
     (if \<not> isDigit c then (0, Some ErrSyntax)
      else if n \<ge> maxUint64 div 10 + 1 then (maxUint64, Some ErrRange)
      else if n * 10 + digitVal c > maxUint64 then (maxUint64, Some ErrRange)
      else parseUintDigits (n * 10 + digitVal c) cs)"

definition ParseUint :: "string \<Rightarrow> nat \<times> num_error option" where
  "ParseUint s = (if s = [] then (0, Some ErrSyntax) else parseUintDigits 0 s)"

text \<open>
  \<^verbatim>\<open>strconv.ParseInt(s, 10, 64)\<close>: an optional sign, then \<^verbatim>\<open>ParseUint\<close>. A syntax error
  returns 0; a range error returns the nearest bound of the 64-bit range, together with
  the error.
\<close>

definition ParseInt :: "string \<Rightarrow> go_int \<times> num_error option" where
  "ParseInt s =
     (case s of
        [] \<Rightarrow> (0, Some ErrSyntax)
      | c # cs \<Rightarrow>
          (let neg = (c = CHR ''-'');
               rest = (if c = CHR ''+'' \<or> c = CHR ''-'' then cs else s);
               (un, err) = ParseUint rest
           in if err = Some ErrSyntax then (0, err)
              else if \<not> neg \<and> un \<ge> 2 ^ 63 then (2 ^ 63 - 1, Some ErrRange)
              else if neg \<and> un > 2 ^ 63 then (- (2 ^ 63), Some ErrRange)
              else (if neg then - of_nat un else of_nat un, None)))"

text \<open>
  \<^verbatim>\<open>strconv.Atoi\<close> is \<^verbatim>\<open>ParseInt(s, 10, 0)\<close> converted to \<^verbatim>\<open>int\<close>, which has 64 bits
  here (its fast path for short strings computes the same value).
\<close>

definition Atoi :: "string \<Rightarrow> go_int \<times> num_error option" where
  "Atoi s = ParseInt s"

subsection \<open>strings.ToUpper\<close>

definition upperByte :: "char \<Rightarrow> char" where
  "upperByte c =
     (if 97 \<le> (of_char c :: nat) \<and> (of_char c :: nat) \<le> 122
      then char_of ((of_char c :: nat) - 32) else c)"

text \<open>
  \<^verbatim>\<open>strings.ToUpper\<close> maps the ASCII letters a-z to A-Z. A string with bytes beyond ASCII
  is mapped rune by rune with Unicode's upper case, under which two runes outside ASCII
  become ASCII letters: U+0131 (dotless i, bytes C4 B1) becomes I, and U+017F (long s,
  bytes C5 BF) becomes S. The bytes of every other rune outside ASCII are kept as they
  are: Go maps them to bytes outside ASCII again, and the parser only compares the
  result with the required column names, which are ASCII.
\<close>

fun ToUpper :: "string \<Rightarrow> string" where
  "ToUpper [] = []"
| "ToUpper [c] = [upperByte c]"
| "ToUpper (c # d # cs) =
     (if (of_char c :: nat) = 196 \<and> (of_char d :: nat) = 177 then CHR ''I'' # ToUpper cs
      else if (of_char c :: nat) = 197 \<and> (of_char d :: nat) = 191 then CHR ''S'' # ToUpper cs
      else upperByte c # ToUpper (d # cs))"

subsection \<open>encoding/csv\<close>

text \<open>
  The input of the parser is the sequence of records the CSV tokenizer finds in the byte
  stream (empty lines are skipped by the tokenizer): each is a list of fields, or is
  malformed (a misplaced quote, a failing read). \<^verbatim>\<open>csv.NewReader\<close> leaves
  \<^verbatim>\<open>FieldsPerRecord\<close> at 0, and the parser does not change it: \<^verbatim>\<open>Read\<close> then sets it
  to the number of fields of the first record, and answers every later record of another
  length with \<^verbatim>\<open>ErrFieldCount\<close>.
\<close>

datatype csv_line = Fields "string list" | Malformed

datatype csv_error = EOF | ErrFieldCount | ErrParse

record csvReader =
  FieldsPerRecord :: int
  pending :: "csv_line list"

definition NewReader :: "csv_line list \<Rightarrow> csvReader" where
  "NewReader input = \<lparr>FieldsPerRecord = 0, pending = input\<rparr>"

definition Read :: "csvReader \<Rightarrow> (csv_error + string list) \<times> csvReader" where
  "Read r =
     (case pending r of
        [] \<Rightarrow> (Inl EOF, r)
      | Malformed # rest \<Rightarrow> (Inl ErrParse, r\<lparr>pending := rest\<rparr>)
      | Fields dst # rest \<Rightarrow>
          (if FieldsPerRecord r > 0
           then (if int (length dst) \<noteq> FieldsPerRecord r
                 then (Inl ErrFieldCount, r\<lparr>pending := rest\<rparr>)
                 else (Inr dst, r\<lparr>pending := rest\<rparr>))
           else if FieldsPerRecord r = 0
           then (Inr dst, r\<lparr>FieldsPerRecord := int (length dst), pending := rest\<rparr>)
           else (Inr dst, r\<lparr>pending := rest\<rparr>)))"

section \<open>Schema resolution\<close>

text \<open>
  \<^verbatim>\<open>colMap\<close> is a Go map from column name to index, kept here as an association list
  with distinct keys, so that its keys can be enumerated. Filling it from the header
  lets a later column of the same name overwrite an earlier one.
\<close>

type_synonym colMap = "(string \<times> nat) list"

fun fillColMap :: "nat \<Rightarrow> string list \<Rightarrow> colMap \<Rightarrow> colMap" where
  "fillColMap i [] m = m"
| "fillColMap i (col # header) m = fillColMap (Suc i) header (AList.update col i m)"

definition requiredCols :: "string list" where
  "requiredCols =
     [''ACCOUNT_ID'', ''AUCTION_ID'', ''BID_PRICE_MICROS_USD'', ''BID_TIME'',
      ''CAMPAIGN_ID'', ''CLEARING_PRICE_MICROS_USD'', ''CLICKS'', ''CONVERSIONS'',
      ''CREATIVE_ID'', ''DOMAIN'', ''GEO_COUNTRY'', ''GEO_CITY'',
      ''PLATFORM_DEVICE_TYPE'', ''PLATFORM_BROWSER'', ''PLATFORM_OS'', ''WIN_COST_MICROS_USD'']"

datatype parse_error =
    FailedToReadHeader csv_error
  | RequiredColumnNotFound string
  | ErrorReadingRecord csv_error

text \<open>
  The validation loop. A required column that is a key of the map keeps its index.
  Otherwise the keys of the map are searched for one whose upper case is the column.
  Go iterates over a map in an order it does not specify, so when several keys match,
  any of them can be the one met first: \<open>pick\<close> stands for that choice (it is given the
  matching entries and its answer is read modulo their number).
\<close>

fun validateCols :: "(colMap \<Rightarrow> nat) \<Rightarrow> string list \<Rightarrow> colMap \<Rightarrow> parse_error + colMap" where
  "validateCols pick [] m = Inr m"
| "validateCols pick (col # cols) m =
     (if map_of m col \<noteq> None then validateCols pick cols m
      else (case filter (\<lambda>(headerCol, idx). ToUpper headerCol = col) m of
              [] \<Rightarrow> Inl (RequiredColumnNotFound col)
            | e # es \<Rightarrow>
                validateCols pick cols
                  (AList.update col (snd ((e # es) ! (pick (e # es) mod length (e # es)))) m)))"

section \<open>Timestamps\<close>

text \<open>
  A \<^verbatim>\<open>time.Time\<close> in UTC, by its calendar fields. \<^verbatim>\<open>time.Parse\<close> returns UTC times
  whose fields are in range, so that the order of two instants is the lexicographic
  order of their fields. The zero value of the type is 1 January of year 1, 00:00:00.
\<close>

record Time =
  Year :: nat
  Month :: nat
  Day :: nat
  Hour :: nat
  Minute :: nat
  Second :: nat
  Nanosecond :: nat

definition Date :: "nat \<Rightarrow> nat \<Rightarrow> nat \<Rightarrow> nat \<Rightarrow> nat \<Rightarrow> nat \<Rightarrow> nat \<Rightarrow> Time" where
  "Date y mo d h mi s ns =
     \<lparr>Year = y, Month = mo, Day = d, Hour = h, Minute = mi, Second = s, Nanosecond = ns\<rparr>"

definition zeroTime :: Time where
  "zeroTime = Date 1 1 1 0 0 0 0"

definition IsZero :: "Time \<Rightarrow> bool" where
  "IsZero t = (t = zeroTime)"

definition timeKey :: "Time \<Rightarrow> nat \<times> nat \<times> nat \<times> nat \<times> nat \<times> nat \<times> nat" where
  "timeKey t = (Year t, Month t, Day t, Hour t, Minute t, Second t, Nanosecond t)"

definition Before :: "Time \<Rightarrow> Time \<Rightarrow> bool" where
  "Before t u = (timeKey t < timeKey u)"

definition After :: "Time \<Rightarrow> Time \<Rightarrow> bool" where
  "After t u = (timeKey u < timeKey t)"

subsection \<open>time.Parse for the two layouts of the parser\<close>

text \<open>
  A layout is the sequence of its standard chunks, each with the literal text before it:
  this is how \<^verbatim>\<open>nextStdChunk\<close> cuts \<^verbatim>\<open>"2006-01-02 15:04:05.000"\<close> and
  \<^verbatim>\<open>"2006-01-02 15:04:05"\<close>.
\<close>

datatype chunk =
    stdLongYear | stdZeroMonth | stdZeroDay | stdHour | stdZeroMinute | stdZeroSecond
  | stdFracSecond0 nat

type_synonym layout = "(string \<times> chunk) list"

definition layoutSeconds :: layout where
  "layoutSeconds =
     [([], stdLongYear), (''-'', stdZeroMonth), (''-'', stdZeroDay), ('' '', stdHour),
      ('':'', stdZeroMinute), ('':'', stdZeroSecond)]"

definition layoutMillis :: layout where
  "layoutMillis = layoutSeconds @ [([], stdFracSecond0 3)]"

definition cutspace :: "string \<Rightarrow> string" where
  "cutspace s = dropWhile (\<lambda>c. c = CHR '' '') s"

text \<open>\<^verbatim>\<open>skip\<close> removes a literal prefix of the layout from the value; a run of spaces of
  the layout matches any run of spaces of the value.\<close>

function skip :: "string \<Rightarrow> string \<Rightarrow> string option" where
  "skip v [] = Some v"
| "skip v (p # ps) =
     (if p = CHR '' ''
      then (if v \<noteq> [] \<and> hd v \<noteq> CHR '' '' then None else skip (cutspace v) (cutspace ps))
      else (case v of [] \<Rightarrow> None | c # cs \<Rightarrow> if c \<noteq> p then None else skip cs ps))"
  by pat_completeness auto
termination
  by (relation "measure (\<lambda>(v, p). length p)")
     (auto simp: cutspace_def less_Suc_eq_le length_dropWhile_le)

definition getnum :: "string \<Rightarrow> bool \<Rightarrow> (nat \<times> string) option" where
  "getnum s fixed =
     (case s of
        [] \<Rightarrow> None
      | c # cs \<Rightarrow>
          if \<not> isDigit c then None
          else (case cs of
                  [] \<Rightarrow> if fixed then None else Some (digitVal c, cs)
                | d # ds \<Rightarrow>
                    if \<not> isDigit d then (if fixed then None else Some (digitVal c, cs))
                    else Some (digitVal c * 10 + digitVal d, ds)))"

fun leadingInt :: "nat \<Rightarrow> string \<Rightarrow> (nat \<times> string) option" where
  "leadingInt x [] = Some (x, [])"
| "leadingInt x (c # cs) =
     (if \<not> isDigit c then Some (x, c # cs)
      else if x > 2 ^ 63 div 10 then None
      else if x * 10 + digitVal c > 2 ^ 63 then None
      else leadingInt (x * 10 + digitVal c) cs)"

text \<open>The \<^verbatim>\<open>atoi\<close> of package time: an optional sign, then digits only.\<close>

definition atoi :: "string \<Rightarrow> int option" where
  "atoi s =
     (let signed = (s \<noteq> [] \<and> (hd s = CHR ''-'' \<or> hd s = CHR ''+''));
          neg = (s \<noteq> [] \<and> hd s = CHR ''-'')
      in case leadingInt 0 (if signed then tl s else s) of
           None \<Rightarrow> None
         | Some (q, rest) \<Rightarrow>
             if rest \<noteq> [] then None
             else Some (let x = sint (word_of_nat q :: go_int) in if neg then - x else x))"

definition commaOrPeriod :: "char \<Rightarrow> bool" where
  "commaOrPeriod c = (c = CHR ''.'' \<or> c = CHR '','')"

text \<open>\<^verbatim>\<open>parseNanoseconds(value, nbytes)\<close>: a separator and \<open>nbytes - 1\<close> digits (the first
  nine of them count), scaled to nanoseconds.\<close>

definition parseNanoseconds :: "string \<Rightarrow> nat \<Rightarrow> nat option" where
  "parseNanoseconds v nbytes =
     (case v of
        [] \<Rightarrow> None
      | c # cs \<Rightarrow>
          if \<not> commaOrPeriod c then None
          else (let nb = min nbytes 10 in
                case atoi (take (nb - 1) cs) of
                  None \<Rightarrow> None
                | Some ns \<Rightarrow> if ns < 0 then None else Some (nat ns * 10 ^ (10 - nb))))"

definition isLeap :: "nat \<Rightarrow> bool" where
  "isLeap y = (y mod 4 = 0 \<and> (y mod 100 \<noteq> 0 \<or> y mod 400 = 0))"

definition daysIn :: "nat \<Rightarrow> nat \<Rightarrow> nat" where
  "daysIn m y =
     (if m = 2 then (if isLeap y then 29 else 28)
      else if m = 4 \<or> m = 6 \<or> m = 9 \<or> m = 11 then 30 else 31)"

text \<open>
  One standard chunk of the layout, read from the front of the value. \<open>fracNext\<close> says that
  the next chunk of the layout is a fractional second: when it is not and the value has
  a fraction after the seconds, \<^verbatim>\<open>Parse\<close> reads that fraction all the same.
\<close>

fun parseChunk :: "chunk \<Rightarrow> bool \<Rightarrow> Time \<Rightarrow> string \<Rightarrow> (Time \<times> string) option" where
  "parseChunk stdLongYear fracNext t v =
     (if length v < 4 \<or> \<not> isDigit (hd v) then None
      else (case atoi (take 4 v) of
              None \<Rightarrow> None
            | Some y \<Rightarrow> Some (t\<lparr>Year := nat y\<rparr>, drop 4 v)))"
| "parseChunk stdZeroMonth fracNext t v =
     (case getnum v True of
        None \<Rightarrow> None
      | Some (n, rest) \<Rightarrow> if n \<le> 0 \<or> 12 < n then None else Some (t\<lparr>Month := n\<rparr>, rest))"
| "parseChunk stdZeroDay fracNext t v =
     (case getnum v True of
        None \<Rightarrow> None
      | Some (n, rest) \<Rightarrow> Some (t\<lparr>Day := n\<rparr>, rest))"
| "parseChunk stdHour fracNext t v =
     (case getnum v False of
        None \<Rightarrow> None
      | Some (n, rest) \<Rightarrow> if 24 \<le> n then None else Some (t\<lparr>Hour := n\<rparr>, rest))"
| "parseChunk stdZeroMinute fracNext t v =
     (case getnum v True of
        None \<Rightarrow> None
      | Some (n, rest) \<Rightarrow> if 60 \<le> n then None else Some (t\<lparr>Minute := n\<rparr>, rest))"
| "parseChunk stdZeroSecond fracNext t v =
     (case getnum v True of
        None \<Rightarrow> None
      | Some (n, rest) \<Rightarrow>
          if 60 \<le> n then None
          else if length rest \<ge> 2 \<and> commaOrPeriod (hd rest) \<and> isDigit (rest ! 1) \<and> \<not> fracNext
          then (let k = 2 + length (takeWhile isDigit (drop 2 rest)) in
                case parseNanoseconds rest k of
                  None \<Rightarrow> None
                | Some ns \<Rightarrow> Some (t\<lparr>Second := n, Nanosecond := ns\<rparr>, drop k rest))
          else Some (t\<lparr>Second := n\<rparr>, rest))"
| "parseChunk (stdFracSecond0 digits) fracNext t v =
     (if length v < 1 + digits then None
      else (case parseNanoseconds v (1 + digits) of
              None \<Rightarrow> None
            | Some ns \<Rightarrow> Some (t\<lparr>Nanosecond := ns\<rparr>, drop (1 + digits) v)))"

definition nextIsFrac :: "layout \<Rightarrow> bool" where
  "nextIsFrac l = (case l of (_, stdFracSecond0 _) # _ \<Rightarrow> True | _ \<Rightarrow> False)"

fun parseChunks :: "layout \<Rightarrow> Time \<Rightarrow> string \<Rightarrow> Time option" where
  "parseChunks [] t v =
     (if v \<noteq> [] then None
      else if Day t < 1 \<or> Day t > daysIn (Month t) (Year t) then None
      else Some t)"
| "parseChunks ((prefix, std) # rest) t v =
     (case skip v prefix of
        None \<Rightarrow> None
      | Some v1 \<Rightarrow>
          (case parseChunk std (nextIsFrac rest) t v1 of
             None \<Rightarrow> None
           | Some (t', v2) \<Rightarrow> parseChunks rest t' v2))"

definition time_Parse :: "layout \<Rightarrow> string \<Rightarrow> Time option" where
  "time_Parse l v = parseChunks l (Date 0 1 1 0 0 0 0) v"

text \<open>\<^verbatim>\<open>Format("2006-01-02 15")\<close>, for the years \<^verbatim>\<open>Parse\<close> can return (at most 9999).\<close>

definition digitChar :: "nat \<Rightarrow> char" where
  "digitChar n = char_of (48 + n mod 10)"

definition pad2 :: "nat \<Rightarrow> string" where
  "pad2 n = [digitChar (n div 10), digitChar n]"

definition FormatHour :: "Time \<Rightarrow> string" where
  "FormatHour t =
     [digitChar (Year t div 1000), digitChar (Year t div 100), digitChar (Year t div 10),
      digitChar (Year t)] @ ''-'' @ pad2 (Month t) @ ''-'' @ pad2 (Day t) @ '' '' @ pad2 (Hour t)"

section \<open>float64\<close>

text \<open>
  The summary holds its amounts and rates as \<^verbatim>\<open>float64\<close>. A finite binary64 number is
  kept by its value, a rational; every operation computes the exact result and rounds
  it to the nearest binary64 number, ties to the even significand, as IEEE 754 does and
  Go requires. \<open>ilog2 x\<close> is the exponent of \<open>x\<close>: the integer \<open>e\<close> with
  \<open>2^e \<le> x < 2^(e+1)\<close>. A binary64 number has 53 significant bits and its last bit is
  worth at least \<open>2^-1074\<close>; a result of magnitude \<open>2^1024\<close> or more is an infinity.
  The sign of zero is not kept: \<open>-0\<close> equals \<open>0\<close> in every comparison, and no division
  here has a zero divisor.
\<close>

datatype float64 = Fin rat | PosInf | NegInf | NaN

definition ilog2 :: "rat \<Rightarrow> int" where
  "ilog2 x = (if 1 \<le> x then bitlen \<lfloor>x\<rfloor> - 1 else - bitlen (\<lceil>1 / x\<rceil> - 1))"

definition rne :: "rat \<Rightarrow> int" where
  "rne x =
     (if x - of_int \<lfloor>x\<rfloor> < 1 / 2 then \<lfloor>x\<rfloor>
      else if 1 / 2 < x - of_int \<lfloor>x\<rfloor> then \<lfloor>x\<rfloor> + 1
      else if even \<lfloor>x\<rfloor> then \<lfloor>x\<rfloor> else \<lfloor>x\<rfloor> + 1)"

definition quantum :: "rat \<Rightarrow> int" where
  "quantum x = max (ilog2 \<bar>x\<bar> - 52) (- 1074)"

definition round64 :: "rat \<Rightarrow> float64" where
  "round64 x =
     (if x = 0 then Fin 0
      else if (2::rat) powi 1024 \<le> \<bar>of_int (rne (x / 2 powi quantum x)) * 2 powi quantum x\<bar>
      then (if 0 < x then PosInf else NegInf)
      else Fin (of_int (rne (x / 2 powi quantum x)) * (2::rat) powi quantum x))"

fun f64add :: "float64 \<Rightarrow> float64 \<Rightarrow> float64" where
  "f64add (Fin a) (Fin b) = round64 (a + b)"
| "f64add NaN y = NaN"
| "f64add x NaN = NaN"
| "f64add PosInf NegInf = NaN"
| "f64add NegInf PosInf = NaN"
| "f64add PosInf y = PosInf"
| "f64add x PosInf = PosInf"
| "f64add NegInf y = NegInf"
| "f64add x NegInf = NegInf"

fun f64neg :: "float64 \<Rightarrow> float64" where
  "f64neg (Fin a) = Fin (- a)"
| "f64neg PosInf = NegInf"
| "f64neg NegInf = PosInf"
| "f64neg NaN = NaN"

fun f64mul :: "float64 \<Rightarrow> float64 \<Rightarrow> float64" where
  "f64mul (Fin a) (Fin b) = round64 (a * b)"
| "f64mul NaN y = NaN"
| "f64mul x NaN = NaN"
| "f64mul (Fin a) y = (if a = 0 then NaN else if 0 < a then y else f64neg y)"
| "f64mul x (Fin b) = (if b = 0 then NaN else if 0 < b then x else f64neg x)"
| "f64mul PosInf y = y"
| "f64mul NegInf y = f64neg y"

fun f64div :: "float64 \<Rightarrow> float64 \<Rightarrow> float64" where
  "f64div (Fin a) (Fin b) =
     (if b = 0 then (if a = 0 then NaN else if 0 < a then PosInf else NegInf)
      else round64 (a / b))"
| "f64div NaN y = NaN"
| "f64div x NaN = NaN"
| "f64div (Fin a) y = Fin 0"
| "f64div x (Fin b) = (if 0 \<le> b then x else f64neg x)"
| "f64div x y = NaN"

text \<open>The conversion \<^verbatim>\<open>float64(n)\<close> of an integer rounds too.\<close>

definition float64_of_int :: "go_int \<Rightarrow> float64" where
  "float64_of_int n = round64 (of_int (sint n))"

section \<open>The summary\<close>

record CampaignMetrics =
  Impressions :: go_int
  Clicks :: go_int
  Conversions :: go_int
  Spend :: float64
  CampaignCTR :: float64

record BeeswaxLogSummary =
  TotalRecords :: go_int
  TotalImpressions :: go_int
  TotalClicks :: go_int
  TotalConversions :: go_int
  TotalBidAmount :: float64
  TotalWinCost :: float64
  CTR :: float64
  AverageBidPrice :: float64
  AverageWinRate :: float64
  TimeRange :: "Time \<times> Time"
  DeviceBreakdown :: "string \<rightharpoonup> go_int"
  BrowserBreakdown :: "string \<rightharpoonup> go_int"
  OSBreakdown :: "string \<rightharpoonup> go_int"
  GeoBreakdown :: "string \<rightharpoonup> go_int"
  HourlyBreakdown :: "string \<rightharpoonup> go_int"
  DomainBreakdown :: "string \<rightharpoonup> go_int"
  CampaignPerformance :: "string \<rightharpoonup> CampaignMetrics"

text \<open>The zero value of \<^verbatim>\<open>CampaignMetrics\<close>, which reading an absent key of the map gives.\<close>

definition zeroCampaign :: CampaignMetrics where
  "zeroCampaign =
     \<lparr>Impressions = 0, Clicks = 0, Conversions = 0, Spend = Fin 0, CampaignCTR = Fin 0\<rparr>"

text \<open>The summary before the first record: empty maps, zero counters, and the time
  range at its two sentinels.\<close>

definition initSummary :: BeeswaxLogSummary where
  "initSummary =
     \<lparr>TotalRecords = 0, TotalImpressions = 0, TotalClicks = 0, TotalConversions = 0,
      TotalBidAmount = Fin 0, TotalWinCost = Fin 0, CTR = Fin 0, AverageBidPrice = Fin 0,
      AverageWinRate = Fin 0,
      TimeRange = (Date 9999 1 1 0 0 0 0, Date 1970 1 1 0 0 0 0),
      DeviceBreakdown = Map.empty, BrowserBreakdown = Map.empty, OSBreakdown = Map.empty,
      GeoBreakdown = Map.empty, HourlyBreakdown = Map.empty, DomainBreakdown = Map.empty,
      CampaignPerformance = Map.empty\<rparr>"

section \<open>One record\<close>

definition getValueSafely :: "colMap \<Rightarrow> string list \<Rightarrow> string \<Rightarrow> string" where
  "getValueSafely colMap record colName =
     (case map_of colMap colName of
        None \<Rightarrow> []
      | Some idx \<Rightarrow> if idx \<ge> length record then [] else record ! idx)"

text \<open>The bid time of a record: the first layout, then the second; the zero time when
  the cell is empty or neither layout parses it.\<close>

definition parseBidTime :: "string \<Rightarrow> Time" where
  "parseBidTime bidTimeStr =
     (if bidTimeStr \<noteq> []
      then (case time_Parse layoutMillis bidTimeStr of
              Some t \<Rightarrow> t
            | None \<Rightarrow> (case time_Parse layoutSeconds bidTimeStr of
                         Some t \<Rightarrow> t
                       | None \<Rightarrow> zeroTime))
      else zeroTime)"

text \<open>\<^verbatim>\<open>m[k]++\<close> on a map of counters: an absent key reads as 0.\<close>

definition incr :: "(string \<rightharpoonup> go_int) \<Rightarrow> string \<Rightarrow> (string \<rightharpoonup> go_int)" where
  "incr m k = m(k \<mapsto> (case m k of None \<Rightarrow> 0 | Some n \<Rightarrow> n) + 1)"

definition updateTimeRange :: "Time \<Rightarrow> BeeswaxLogSummary \<Rightarrow> BeeswaxLogSummary" where
  "updateTimeRange bidTime summary =
     (if \<not> IsZero bidTime
      then summary
        \<lparr>TimeRange :=
           (if Before bidTime (fst (TimeRange summary)) then bidTime
            else fst (TimeRange summary),
            if After bidTime (snd (TimeRange summary)) then bidTime
            else snd (TimeRange summary)),
         HourlyBreakdown := incr (HourlyBreakdown summary) (FormatHour bidTime)\<rparr>
      else summary)"

definition updateTotals ::
  "go_int \<Rightarrow> go_int \<Rightarrow> go_int \<Rightarrow> go_int \<Rightarrow> BeeswaxLogSummary \<Rightarrow> BeeswaxLogSummary" where
  "updateTotals bidPrice winCost clicks conversions summary =
     summary
       \<lparr>TotalRecords := TotalRecords summary + 1,
        TotalImpressions := TotalImpressions summary + 1,
        TotalClicks := TotalClicks summary + clicks,
        TotalConversions := TotalConversions summary + conversions,
        TotalBidAmount :=
          f64add (TotalBidAmount summary) (f64div (float64_of_int bidPrice) (Fin 1000000)),
        TotalWinCost :=
          f64add (TotalWinCost summary) (f64div (float64_of_int winCost) (Fin 1000000))\<rparr>"

definition updateBreakdowns ::
  "string \<Rightarrow> string \<Rightarrow> string \<Rightarrow> string \<Rightarrow> string \<Rightarrow> BeeswaxLogSummary \<Rightarrow> BeeswaxLogSummary"
  where
  "updateBreakdowns deviceType browser os country domain summary =
     summary
       \<lparr>DeviceBreakdown :=
          (if deviceType \<noteq> [] then incr (DeviceBreakdown summary) deviceType
           else DeviceBreakdown summary),
        BrowserBreakdown :=
          (if browser \<noteq> [] then incr (BrowserBreakdown summary) browser
           else BrowserBreakdown summary),
        OSBreakdown :=
          (if os \<noteq> [] then incr (OSBreakdown summary) os else OSBreakdown summary),
        GeoBreakdown :=
          (if country \<noteq> [] then incr (GeoBreakdown summary) country
           else GeoBreakdown summary),
        DomainBreakdown :=
          (if domain \<noteq> [] then incr (DomainBreakdown summary) domain
           else DomainBreakdown summary)\<rparr>"

definition lookupCampaign :: "(string \<rightharpoonup> CampaignMetrics) \<Rightarrow> string \<Rightarrow> CampaignMetrics" where
  "lookupCampaign m k = (case m k of None \<Rightarrow> zeroCampaign | Some campaign \<Rightarrow> campaign)"

definition bumpCampaign :: "go_int \<Rightarrow> go_int \<Rightarrow> go_int \<Rightarrow> CampaignMetrics \<Rightarrow> CampaignMetrics" where
  "bumpCampaign winCost clicks conversions campaign =
     campaign
       \<lparr>Impressions := Impressions campaign + 1,
        Clicks := Clicks campaign + clicks,
        Conversions := Conversions campaign + conversions,
        Spend := f64add (Spend campaign) (f64div (float64_of_int winCost) (Fin 1000000))\<rparr>"

definition updateCampaign ::
  "string \<Rightarrow> go_int \<Rightarrow> go_int \<Rightarrow> go_int \<Rightarrow> BeeswaxLogSummary \<Rightarrow> BeeswaxLogSummary" where
  "updateCampaign campaignID winCost clicks conversions summary =
     (if campaignID \<noteq> []
      then summary
        \<lparr>CampaignPerformance :=
           (CampaignPerformance summary)
             (campaignID \<mapsto>
                bumpCampaign winCost clicks conversions
                  (lookupCampaign (CampaignPerformance summary) campaignID))\<rparr>
      else summary)"

text \<open>
  The body of the loop, for one record that the reader returned. The errors of
  \<^verbatim>\<open>ParseInt\<close> and \<^verbatim>\<open>Atoi\<close> are dropped and the value they return with the error is
  used.
\<close>

definition processRecord :: "colMap \<Rightarrow> string list \<Rightarrow> BeeswaxLogSummary \<Rightarrow> BeeswaxLogSummary" where
  "processRecord colMap record summary =
     (let bidTime = parseBidTime (getValueSafely colMap record ''BID_TIME'');
          bidPrice = fst (ParseInt (getValueSafely colMap record ''BID_PRICE_MICROS_USD''));
          winCost = fst (ParseInt (getValueSafely colMap record ''WIN_COST_MICROS_USD''));
          clicks = fst (Atoi (getValueSafely colMap record ''CLICKS''));
          conversions = fst (Atoi (getValueSafely colMap record ''CONVERSIONS''));
          campaignID = getValueSafely colMap record ''CAMPAIGN_ID'';
          domain = getValueSafely colMap record ''DOMAIN'';
          country = getValueSafely colMap record ''GEO_COUNTRY'';
          deviceType = getValueSafely colMap record ''PLATFORM_DEVICE_TYPE'';
          browser = getValueSafely colMap record ''PLATFORM_BROWSER'';
          os = getValueSafely colMap record ''PLATFORM_OS''
      in updateCampaign campaignID winCost clicks conversions
           (updateBreakdowns deviceType browser os country domain
              (updateTotals bidPrice winCost clicks conversions
                 (updateTimeRange bidTime summary))))"

section \<open>The parser\<close>

text \<open>The reading loop: it ends with the summary at the end of the input, and with an
  error at the first record the reader refuses.\<close>

function parseRecords :: "colMap \<Rightarrow> csvReader \<Rightarrow> BeeswaxLogSummary \<Rightarrow> parse_error + BeeswaxLogSummary"
  where
  "parseRecords colMap r summary =
     (case Read r of
        (Inl EOF, r') \<Rightarrow> Inr summary
      | (Inl err, r') \<Rightarrow> Inl (ErrorReadingRecord err)
      | (Inr record, r') \<Rightarrow> parseRecords colMap r' (processRecord colMap record summary))"
  by pat_completeness auto
termination
  by (relation "measure (\<lambda>(colMap, r, summary). length (pending r))")
     (auto simp: Read_def split: list.splits csv_line.splits if_splits)

declare parseRecords.simps [simp del]

text \<open>The derived metrics, computed once the stream is exhausted.\<close>

definition finalizeCampaign :: "CampaignMetrics \<Rightarrow> CampaignMetrics" where
  "finalizeCampaign campaign =
     (if 0 < sint (Impressions campaign)
      then campaign
        \<lparr>CampaignCTR :=
           f64mul (f64div (float64_of_int (Clicks campaign))
                     (float64_of_int (Impressions campaign))) (Fin 100)\<rparr>
      else campaign)"

definition finalize :: "BeeswaxLogSummary \<Rightarrow> BeeswaxLogSummary" where
  "finalize summary =
     summary
       \<lparr>AverageBidPrice :=
          (if 0 < sint (TotalRecords summary)
           then f64div (TotalBidAmount summary) (float64_of_int (TotalRecords summary))
           else AverageBidPrice summary),
        CTR :=
          (if 0 < sint (TotalImpressions summary)
           then f64mul (f64div (float64_of_int (TotalClicks summary))
                          (float64_of_int (TotalImpressions summary))) (Fin 100)
           else CTR summary),
        AverageWinRate :=
          (if 0 < sint (TotalRecords summary)
           then f64mul (f64div (float64_of_int (TotalImpressions summary))
                          (float64_of_int (TotalRecords summary))) (Fin 100)
           else AverageWinRate summary),
        CampaignPerformance :=
          (\<lambda>campaignID. map_option finalizeCampaign (CampaignPerformance summary campaignID))\<rparr>"

definition ParseBeeswaxLog :: "(colMap \<Rightarrow> nat) \<Rightarrow> csv_line list \<Rightarrow> parse_error + BeeswaxLogSummary"
  where
  "ParseBeeswaxLog pick input =
     (case Read (NewReader input) of
        (Inl err, r) \<Rightarrow> Inl (FailedToReadHeader err)
      | (Inr header, r) \<Rightarrow>
          (case validateCols pick requiredCols (fillColMap 0 header []) of
             Inl err \<Rightarrow> Inl err
           | Inr colMap \<Rightarrow>
               (case parseRecords colMap r initSummary of
                  Inl err \<Rightarrow> Inl err
                | Inr summary \<Rightarrow> Inr (finalize summary))))"

section \<open>Notions the properties are stated with\<close>

text \<open>
  A header token is a required name "in some letter case" when the two have the same
  length and agree byte by byte up to the case of ASCII letters.
\<close>

definition sameFold :: "char \<Rightarrow> char \<Rightarrow> bool" where
  "sameFold a b = (upperByte a = upperByte b)"

definition caseVariant :: "string \<Rightarrow> string \<Rightarrow> bool" where
  "caseVariant h c = list_all2 sameFold h c"

section \<open>Invariants used in the proofs\<close>

text \<open>
  What holds of the column map from the header on: its keys are distinct and include
  every header token, and every index it holds is the position of a header token that
  is the key itself or, for a key that is not a header token, one whose upper case is
  the key.
\<close>

definition colInv :: "string list \<Rightarrow> colMap \<Rightarrow> bool" where
  "colInv header m \<longleftrightarrow>
     distinct (map fst m) \<and> set header \<subseteq> fst ` set m \<and>
     (\<forall>k j. map_of m k = Some j \<longrightarrow>
        j < length header \<and>
        (header ! j = k \<or> (k \<notin> set header \<and> ToUpper k = k \<and> ToUpper (header ! j) = k)))"

section \<open>Example inputs\<close>

text \<open>The header of the platform's own logs, a header in another order and in mixed
  case, and a header without the CLICKS column.\<close>

definition exampleHeader :: "string list" where
  "exampleHeader = requiredCols"

definition shuffledHeader :: "string list" where
  "shuffledHeader =
     [''win_cost_micros_usd'', ''Platform_OS'', ''platform_browser'', ''PLATFORM_device_TYPE'',
      ''geo_city'', ''Geo_Country'', ''domain'', ''creative_id'', ''conversions'', ''Clicks'',
      ''CLEARING_PRICE_MICROS_USD'', ''campaign_id'', ''bid_time'', ''bid_price_micros_usd'',
      ''auction_id'', ''account_id'']"

definition headerWithoutClicks :: "string list" where
  "headerWithoutClicks =
     [''ACCOUNT_ID'', ''AUCTION_ID'', ''BID_PRICE_MICROS_USD'', ''BID_TIME'',
      ''CAMPAIGN_ID'', ''CLEARING_PRICE_MICROS_USD'', ''CONVERSIONS'',
      ''CREATIVE_ID'', ''DOMAIN'', ''GEO_COUNTRY'', ''GEO_CITY'',
      ''PLATFORM_DEVICE_TYPE'', ''PLATFORM_BROWSER'', ''PLATFORM_OS'', ''WIN_COST_MICROS_USD'']"

text \<open>A data row of 16 cells for the example header, by the cells the properties look
  at: bid price, bid time, campaign, clicks and win cost; the other cells are empty.\<close>

definition exampleRow :: "string \<Rightarrow> string \<Rightarrow> string \<Rightarrow> string \<Rightarrow> string \<Rightarrow> string list" where
  "exampleRow bidPrice bidTime campaignID clicks winCost =
     [[], [], bidPrice, bidTime, campaignID, [], clicks, [], [], [], [], [], [], [], [], winCost]"

text \<open>A value of type \<^typ>\<open>float64\<close> is a binary64 number when it is an infinity, NaN, or
  a rational that rounding leaves as it is.\<close>

definition isFloat64 :: "float64 \<Rightarrow> bool" where
  "isFloat64 x = (case x of Fin y \<Rightarrow> round64 y = Fin y | _ \<Rightarrow> True)"

definition exampleColMap :: colMap where
  "exampleColMap = fillColMap 0 exampleHeader []"

definition twoRows :: "string list list" where
  "twoRows =
     [exampleRow ''500000'' ''2024-07-01 10:00:00'' ''c1'' ''1'' ''400000'',
      exampleRow ''600000'' ''2024-07-01 11:00:00'' ''c1'' ''0'' ''0'']"

definition exampleInput :: "csv_line list" where
  "exampleInput = Fields exampleHeader # map Fields twoRows"

definition exampleSummary :: BeeswaxLogSummary where
  "exampleSummary =
     finalize (foldl (\<lambda>s r. processRecord exampleColMap r s) initSummary twoRows)"






text \<open>What holds of the campaign map after \<open>n\<close> records: every key is a non-empty
  campaign id, every entry has between 1 and \<open>n\<close> impressions, and no click-through rate
  has been computed yet.\<close>

definition campInv :: "nat \<Rightarrow> BeeswaxLogSummary \<Rightarrow> bool" where
  "campInv n s \<longleftrightarrow>
     (\<forall>k m. CampaignPerformance s k = Some m \<longrightarrow>
        k \<noteq> [] \<and> 1 \<le> unat (Impressions m) \<and> unat (Impressions m) \<le> n \<and>
        CampaignCTR m = Fin 0)"

chapter \<open>Properties\<close>

section \<open>Schema resolution\<close>

lemma upperByte_ascii: "upperByte a = b \<Longrightarrow> (of_char b :: nat) < 128 \<Longrightarrow> (of_char a :: nat) < 128"
  by (auto simp: upperByte_def split: if_splits)

lemma ToUpper_ascii: "\<forall>a\<in>set h. (of_char a :: nat) < 128 \<Longrightarrow> ToUpper h = map upperByte h"
  by (induction h rule: ToUpper.induct) auto

lemma caseVariant_ToUpper:
  assumes "caseVariant h c" and "\<forall>b\<in>set c. upperByte b = b \<and> (of_char b :: nat) < 128"
  shows "ToUpper h = c"
proof -
  from assms have "map upperByte h = c \<and> (\<forall>a\<in>set h. (of_char a :: nat) < 128)"
    unfolding caseVariant_def
  proof (induction h c rule: list_all2_induct)
    case Nil
    then show ?case by simp
  next
    case (Cons a h b c)
    then have "upperByte a = b" by (simp add: sameFold_def)
    moreover from this Cons.prems have "(of_char a :: nat) < 128"
      by (auto intro: upperByte_ascii)
    ultimately show ?case using Cons by simp
  qed
  then show ?thesis by (simp add: ToUpper_ascii)
qed

lemma requiredCols_upper:
  "\<forall>c\<in>set requiredCols. \<forall>b\<in>set c. upperByte b = b \<and> (of_char b :: nat) < 128"
  by (simp add: requiredCols_def upperByte_def)

lemma requiredCols_ToUpper: "\<forall>c\<in>set requiredCols. ToUpper c = c"
  by (simp add: requiredCols_def upperByte_def)

lemma fillColMap_keys: "fst ` set (fillColMap i header m) = set header \<union> fst ` set m"
  by (induction header arbitrary: i m) (auto simp: dom_update)

lemma fillColMap_distinct: "distinct (map fst m) \<Longrightarrow> distinct (map fst (fillColMap i header m))"
  by (induction header arbitrary: i m) (auto simp: distinct_update)

lemma fillColMap_index:
  "map_of (fillColMap i header m) k = Some j \<Longrightarrow>
     (k \<notin> set header \<and> map_of m k = Some j) \<or> (i \<le> j \<and> j < i + length header \<and> header ! (j - i) = k)"
proof (induction header arbitrary: i m)
  case Nil
  then show ?case by simp
next
  case (Cons col header)
  from Cons.IH [of "Suc i" "AList.update col i m"] Cons.prems
  show ?case
    by (auto simp: update_conv' nth_Cons' split: if_splits)
qed


lemma colInv_fill: "colInv header (fillColMap 0 header [])"
  unfolding colInv_def
  using fillColMap_index [of 0 header "[]"] fillColMap_distinct [of "[]" 0 header]
    fillColMap_keys [of 0 header "[]"]
  by fastforce

lemma map_of_key: "map_of m k \<noteq> None \<longleftrightarrow> k \<in> fst ` set m"
  by (simp add: map_of_eq_None_iff)

lemma validateCols_ok:
  assumes "\<forall>c\<in>set cols. ToUpper c = c"
    and "\<forall>c\<in>set cols. \<exists>k\<in>fst ` set m. k = c \<or> ToUpper k = c"
    and "colInv header m"
  shows "\<exists>m'. validateCols pick cols m = Inr m' \<and> colInv header m' \<and>
           (\<forall>k j. map_of m k = Some j \<longrightarrow> map_of m' k = Some j) \<and>
           (\<forall>c\<in>set cols. map_of m' c \<noteq> None)"
  using assms
proof (induction cols arbitrary: m)
  case Nil
  then show ?case by simp
next
  case (Cons col cols)
  show ?case
  proof (cases "map_of m col \<noteq> None")
    case True
    from Cons.IH [of m] Cons.prems obtain m' where
      m': "validateCols pick cols m = Inr m'" "colInv header m'"
        "\<forall>k j. map_of m k = Some j \<longrightarrow> map_of m' k = Some j" "\<forall>c\<in>set cols. map_of m' c \<noteq> None"
      by auto
    with True show ?thesis by auto
  next
    case False
    then have nokey: "col \<notin> fst ` set m" using map_of_key [of m col] by blast
    let ?cands = "filter (\<lambda>(headerCol, idx). ToUpper headerCol = col) m"
    from Cons.prems(2) nokey obtain k where "k \<in> fst ` set m" "ToUpper k = col" by auto
    then have "?cands \<noteq> []" by (auto simp: filter_empty_conv)
    then obtain e es where ces: "?cands = e # es" by (cases ?cands) auto
    define p where "p = (e # es) ! (pick (e # es) mod length (e # es))"
    have "p \<in> set (e # es)" unfolding p_def by (rule nth_mem) simp
    then have "p \<in> set ?cands" using ces by simp
    then have pin: "p \<in> set m" and pup: "ToUpper (fst p) = col"
      by auto
    from Cons.prems(3) pin have plook: "map_of m (fst p) = Some (snd p)"
      by (simp add: colInv_def)
    let ?m1 = "AList.update col (snd p) m"
    have up: "ToUpper col = col" using Cons.prems(1) by simp
    from Cons.prems(3) plook have pj: "snd p < length header"
      and pc: "header ! snd p = fst p \<or> (fst p \<notin> set header \<and> ToUpper (fst p) = fst p \<and> ToUpper (header ! snd p) = fst p)"
      unfolding colInv_def by blast+
    have fne: "fst p \<noteq> col" using pin nokey by (metis image_eqI)
    from pc pup fne have hp: "header ! snd p = fst p" by auto
    have colnh: "col \<notin> set header"
      using nokey Cons.prems(3) unfolding colInv_def by blast
    have inv1: "colInv header ?m1"
      unfolding colInv_def
    proof (intro conjI allI impI)
      show "distinct (map fst ?m1)" using Cons.prems(3) by (simp add: colInv_def distinct_update)
    next
      show "set header \<subseteq> fst ` set ?m1" using Cons.prems(3) by (auto simp: colInv_def dom_update)
    next
      fix k j assume "map_of ?m1 k = Some j"
      then have "(k = col \<and> j = snd p) \<or> map_of m k = Some j"
        by (auto simp: update_conv' split: if_splits)
      then show "j < length header" using pj Cons.prems(3) unfolding colInv_def by blast
    next
      fix k j assume kj: "map_of ?m1 k = Some j"
      then have "(k = col \<and> j = snd p) \<or> map_of m k = Some j"
        by (auto simp: update_conv' split: if_splits)
      then show "header ! j = k \<or> (k \<notin> set header \<and> ToUpper k = k \<and> ToUpper (header ! j) = k)"
      proof
        assume "k = col \<and> j = snd p"
        with hp pup up colnh show ?thesis by simp
      next
        assume "map_of m k = Some j"
        with Cons.prems(3) show ?thesis unfolding colInv_def by blast
      qed
    qed
    have "\<forall>c\<in>set cols. \<exists>k\<in>fst ` set ?m1. k = c \<or> ToUpper k = c"
      using Cons.prems(2) by (auto simp: dom_update)
    then obtain m' where
      m': "validateCols pick cols ?m1 = Inr m'" "colInv header m'"
        "\<forall>k j. map_of ?m1 k = Some j \<longrightarrow> map_of m' k = Some j" "\<forall>c\<in>set cols. map_of m' c \<noteq> None"
      using Cons.IH [of ?m1] Cons.prems(1) inv1 by auto
    have "validateCols pick (col # cols) m = Inr m'"
      using False ces m'(1) by (simp add: p_def)
    moreover have "map_of ?m1 k = Some j" if "map_of m k = Some j" for k j
      using that False by (auto simp: update_conv')
    then have "\<forall>k j. map_of m k = Some j \<longrightarrow> map_of m' k = Some j"
      using m'(3) by blast
    moreover have "map_of ?m1 col = Some (snd p)" by (simp add: update_conv')
    then have "map_of m' col \<noteq> None"
      using m'(3) by auto
    ultimately show ?thesis using m'(2,4) by auto
  qed
qed

lemma validateCols_fail:
  assumes "\<forall>c\<in>set cols. ToUpper c = c"
    and "c \<in> set cols"
    and "\<forall>k\<in>fst ` set m. k \<noteq> c \<and> ToUpper k \<noteq> c"
  shows "\<exists>c'\<in>set cols. validateCols pick cols m = Inl (RequiredColumnNotFound c') \<and>
           (\<forall>k\<in>fst ` set m. k \<noteq> c' \<and> ToUpper k \<noteq> c')"
  using assms
proof (induction cols arbitrary: m)
  case Nil
  then show ?case by simp
next
  case (Cons col cols)
  show ?case
  proof (cases "map_of m col \<noteq> None")
    case True
    then have "col \<in> fst ` set m" using map_of_key [of m col] by blast
    with Cons.prems have "c \<in> set cols" by auto
    with Cons.IH [of m] Cons.prems True show ?thesis by auto
  next
    case False
    then have nokey: "col \<notin> fst ` set m" using map_of_key [of m col] by blast
    let ?cands = "filter (\<lambda>(headerCol, idx). ToUpper headerCol = col) m"
    show ?thesis
    proof (cases ?cands)
      case Nil
      then have "\<forall>k\<in>fst ` set m. ToUpper k \<noteq> col"
        by (auto simp: filter_empty_conv)
      with nokey False Nil show ?thesis by auto
    next
      case (Cons e es)
      then have "e \<in> set ?cands" by simp
      then have "fst e \<in> fst ` set m" "ToUpper (fst e) = col" by auto
      with Cons.prems(3) have cne: "col \<noteq> c" by auto
      with Cons.prems(2) have cin: "c \<in> set cols" by simp
      let ?m1 = "AList.update col (snd ((e # es) ! (pick (e # es) mod length (e # es)))) m"
      have "ToUpper col = col" using Cons.prems(1) by simp
      with cne Cons.prems(3) have "\<forall>k\<in>fst ` set ?m1. k \<noteq> c \<and> ToUpper k \<noteq> c"
        by (auto simp: dom_update)
      with Cons.IH [of ?m1] Cons.prems(1) cin obtain c' where
        "c' \<in> set cols" "validateCols pick cols ?m1 = Inl (RequiredColumnNotFound c')"
        "\<forall>k\<in>fst ` set ?m1. k \<noteq> c' \<and> ToUpper k \<noteq> c'"
        by auto
      with False Cons show ?thesis by (auto simp: dom_update)
    qed
  qed
qed

section \<open>The reading loop\<close>

lemma parseRecords_Nil:
  "parseRecords cm \<lparr>FieldsPerRecord = n, pending = []\<rparr> s = Inr s"
  by (subst parseRecords.simps) (simp add: Read_def)

lemma parseRecords_Malformed:
  "parseRecords cm \<lparr>FieldsPerRecord = n, pending = Malformed # ls\<rparr> s =
     Inl (ErrorReadingRecord ErrParse)"
  by (subst parseRecords.simps) (simp add: Read_def)

lemma parseRecords_Fields:
  "0 < n \<Longrightarrow> parseRecords cm \<lparr>FieldsPerRecord = n, pending = Fields dst # ls\<rparr> s =
     (if int (length dst) \<noteq> n then Inl (ErrorReadingRecord ErrFieldCount)
      else parseRecords cm \<lparr>FieldsPerRecord = n, pending = ls\<rparr> (processRecord cm dst s))"
  by (subst parseRecords.simps) (simp add: Read_def)

lemma parseRecords_ok:
  "0 < n \<Longrightarrow> \<forall>r\<in>set rows. int (length r) = n \<Longrightarrow>
     parseRecords cm \<lparr>FieldsPerRecord = n, pending = map Fields rows\<rparr> s =
       Inr (foldl (\<lambda>s r. processRecord cm r s) s rows)"
  by (induction rows arbitrary: s) (simp_all add: parseRecords_Nil parseRecords_Fields)

lemma parseRecords_Inr:
  "0 < n \<Longrightarrow> parseRecords cm \<lparr>FieldsPerRecord = n, pending = ls\<rparr> s = Inr s' \<Longrightarrow>
     \<exists>rows. ls = map Fields rows \<and> (\<forall>r\<in>set rows. int (length r) = n) \<and>
       s' = foldl (\<lambda>s r. processRecord cm r s) s rows"
proof (induction ls arbitrary: s)
  case Nil
  then show ?case by (simp add: parseRecords_Nil)
next
  case (Cons l ls)
  show ?case
  proof (cases l)
    case (Fields dst)
    with Cons.prems have len: "int (length dst) = n"
      and rest: "parseRecords cm \<lparr>FieldsPerRecord = n, pending = ls\<rparr> (processRecord cm dst s) = Inr s'"
      by (auto simp: parseRecords_Fields split: if_splits)
    from Cons.IH [OF Cons.prems(1) rest] obtain rows where
      "ls = map Fields rows" "\<forall>r\<in>set rows. int (length r) = n"
      "s' = foldl (\<lambda>s r. processRecord cm r s) (processRecord cm dst s) rows"
      by blast
    with Fields len show ?thesis
      by (intro exI [of _ "dst # rows"]) simp
  next
    case Malformed
    with Cons.prems show ?thesis by (simp add: parseRecords_Malformed)
  qed
qed

lemma parseRecords_error:
  "0 < n \<Longrightarrow> parseRecords cm \<lparr>FieldsPerRecord = n, pending = ls\<rparr> s = Inl e \<Longrightarrow>
     e = ErrorReadingRecord ErrFieldCount \<or> e = ErrorReadingRecord ErrParse"
proof (induction ls arbitrary: s)
  case Nil
  then show ?case by (simp add: parseRecords_Nil)
next
  case (Cons l ls)
  then show ?case
    by (cases l) (auto simp: parseRecords_Fields parseRecords_Malformed split: if_splits)
qed

lemma validateCols_empty: "validateCols pick requiredCols [] = Inl (RequiredColumnNotFound ''ACCOUNT_ID'')"
  by (simp add: requiredCols_def)

lemma ParseBeeswaxLog_header:
  "ParseBeeswaxLog pick (Fields header # ls) =
     (case validateCols pick requiredCols (fillColMap 0 header []) of
        Inl err \<Rightarrow> Inl err
      | Inr colMap \<Rightarrow>
          (case parseRecords colMap \<lparr>FieldsPerRecord = int (length header), pending = ls\<rparr> initSummary of
             Inl err \<Rightarrow> Inl err
           | Inr summary \<Rightarrow> Inr (finalize summary)))"
  by (simp add: ParseBeeswaxLog_def NewReader_def Read_def)

lemma ParseBeeswaxLog_Nil: "ParseBeeswaxLog pick [] = Inl (FailedToReadHeader EOF)"
  by (simp add: ParseBeeswaxLog_def NewReader_def Read_def)

lemma ParseBeeswaxLog_Malformed: "ParseBeeswaxLog pick (Malformed # ls) = Inl (FailedToReadHeader ErrParse)"
  by (simp add: ParseBeeswaxLog_def NewReader_def Read_def)

lemma ParseBeeswaxLog_Inr:
  assumes "ParseBeeswaxLog pick input = Inr s"
  shows "\<exists>header rows cm. input = Fields header # map Fields rows \<and> header \<noteq> [] \<and>
           validateCols pick requiredCols (fillColMap 0 header []) = Inr cm \<and>
           (\<forall>r\<in>set rows. length r = length header) \<and>
           s = finalize (foldl (\<lambda>s r. processRecord cm r s) initSummary rows)"
proof (cases input)
  case Nil
  with assms show ?thesis by (simp add: ParseBeeswaxLog_Nil)
next
  case (Cons l ls)
  show ?thesis
  proof (cases l)
    case Malformed
    with Cons assms show ?thesis by (simp add: ParseBeeswaxLog_Malformed)
  next
    case (Fields header)
    from assms Cons Fields obtain cm s0 where
      cm: "validateCols pick requiredCols (fillColMap 0 header []) = Inr cm"
      and s0: "parseRecords cm \<lparr>FieldsPerRecord = int (length header), pending = ls\<rparr> initSummary = Inr s0"
      and s: "s = finalize s0"
      by (auto simp: ParseBeeswaxLog_header split: sum.splits)
    have ne: "header \<noteq> []"
      using cm by (auto simp: validateCols_empty)
    then have pos: "0 < int (length header)" by simp
    from parseRecords_Inr [OF pos s0] obtain rows where
      "ls = map Fields rows" "\<forall>r\<in>set rows. int (length r) = int (length header)"
      "s0 = foldl (\<lambda>s r. processRecord cm r s) initSummary rows"
      by blast
    with Cons Fields cm s ne show ?thesis by auto
  qed
qed

lemma ParseBeeswaxLog_ok:
  assumes "validateCols pick requiredCols (fillColMap 0 header []) = Inr cm"
    and "\<forall>r\<in>set rows. length r = length header"
  shows "ParseBeeswaxLog pick (Fields header # map Fields rows) =
           Inr (finalize (foldl (\<lambda>s r. processRecord cm r s) initSummary rows))"
proof -
  have "header \<noteq> []" using assms(1) by (auto simp: validateCols_empty)
  then have "0 < int (length header)" by simp
  with assms show ?thesis
    by (simp add: ParseBeeswaxLog_header parseRecords_ok)
qed

section \<open>Counters\<close>

lemma sint_of_nat_small: "n < 2 ^ 63 \<Longrightarrow> sint (word_of_nat n :: go_int) = int n"
  by (simp add: signed_of_nat signed_take_bit_int_eq_self)

lemma processRecord_counts:
  "TotalRecords (processRecord cm r s) = TotalRecords s + 1 \<and>
   TotalImpressions (processRecord cm r s) = TotalImpressions s + 1"
  by (simp add: processRecord_def Let_def updateCampaign_def updateBreakdowns_def
      updateTotals_def updateTimeRange_def)

lemma foldl_counts:
  "TotalRecords (foldl (\<lambda>s r. processRecord cm r s) s rows) = TotalRecords s + of_nat (length rows) \<and>
   TotalImpressions (foldl (\<lambda>s r. processRecord cm r s) s rows) = TotalImpressions s + of_nat (length rows)"
  by (induction rows arbitrary: s) (simp_all add: processRecord_counts)

lemma finalize_counts:
  "TotalRecords (finalize s) = TotalRecords s \<and> TotalImpressions (finalize s) = TotalImpressions s"
  by (simp add: finalize_def)

section \<open>Rounding to binary64\<close>

lemma powi_pos: "0 < (2::rat) powi e"
  by simp

lemma ilog2_bounds:
  assumes "0 < x"
  shows "2 powi ilog2 x \<le> x \<and> x < 2 powi (ilog2 x + 1)"
proof (cases "1 \<le> x")
  case True
  define n where "n = \<lfloor>x\<rfloor>"
  have n1: "1 \<le> n" using True by (simp add: n_def le_floor_iff)
  then have npos: "0 < n" by simp
  from bitlen_bounds [OF npos] have b: "2 ^ nat (bitlen n - 1) \<le> n" "n < 2 ^ nat (bitlen n)"
    by auto
  have bl: "1 \<le> bitlen n" using npos by (simp add: bitlen_alt_def)
  have "(2::rat) powi (bitlen n - 1) = of_int (2 ^ nat (bitlen n - 1))"
    using bl by (simp add: power_int_def)
  also have "\<dots> \<le> of_int n" using b(1) by (simp only: of_int_le_iff)
  also have "\<dots> \<le> x" by (simp add: n_def)
  finally have lo: "2 powi (bitlen n - 1) \<le> x" .
  have "x < of_int (n + 1)" using floor_correct [of x] by (simp add: n_def)
  also have "(of_int (n + 1) :: rat) \<le> of_int (2 ^ nat (bitlen n))" using b(2) by (simp only: of_int_le_iff)
  also have "\<dots> = (2::rat) powi (bitlen n)" using bl by (simp add: power_int_def)
  finally have hi: "x < 2 powi (bitlen n)" .
  from True lo hi show ?thesis by (simp add: ilog2_def n_def)
next
  case False
  define u where "u = 1 / x"
  define m where "m = \<lceil>u\<rceil> - 1"
  have u1: "1 < u" using False assms by (simp add: u_def)
  then have "1 < \<lceil>u\<rceil>" by (simp add: less_ceiling_iff)
  then have mpos: "0 < m" by (simp add: m_def)
  from bitlen_bounds [OF mpos] have b: "2 ^ nat (bitlen m - 1) \<le> m" "m < 2 ^ nat (bitlen m)"
    by auto
  have bl: "1 \<le> bitlen m" using mpos by (simp add: bitlen_alt_def)
  have mu: "of_int m < u" by (simp add: m_def) linarith
  have um: "u \<le> of_int (m + 1)" by (simp add: m_def)
  have "(2::rat) ^ nat (bitlen m - 1) = of_int (2 ^ nat (bitlen m - 1))" by simp
  also have "\<dots> \<le> of_int m" using b(1) by (simp only: of_int_le_iff)
  finally have "(2::rat) ^ nat (bitlen m - 1) \<le> of_int m" .
  then have lo: "(2::rat) ^ nat (bitlen m - 1) < u" using mu by linarith
  have "u \<le> of_int (m + 1)" by (rule um)
  also have "\<dots> \<le> of_int (2 ^ nat (bitlen m))" using b(2) by (simp only: of_int_le_iff)
  finally have hi: "u \<le> (2::rat) ^ nat (bitlen m)" by simp
  have xu: "x = 1 / u" using assms by (simp add: u_def)
  have upos: "0 < u" using u1 by simp
  have "2 powi (- bitlen m) \<le> x"
  proof -
    have "(2::rat) powi (- bitlen m) = 1 / 2 ^ nat (bitlen m)"
      using bl by (simp add: power_int_def field_simps)
    also have "\<dots> \<le> 1 / u" using hi upos by (simp add: frac_le)
    finally show ?thesis by (simp add: xu)
  qed
  moreover have "x < 2 powi (- bitlen m + 1)"
  proof -
    have "1 / u < 1 / 2 ^ nat (bitlen m - 1)" using lo by (simp add: frac_less2)
    also have "\<dots> = (2::rat) powi (- bitlen m + 1)"
      using bl by (simp add: power_int_def field_simps nat_diff_distrib)
    finally show ?thesis by (simp add: xu)
  qed
  ultimately show ?thesis using False by (simp add: ilog2_def m_def u_def)
qed

lemma powi_less_cancel: "(2::rat) powi a < 2 powi b \<Longrightarrow> a < b"
  using power_int_increasing [of b a "2::rat"] by (cases "a < b") auto

lemma ilog2_unique:
  assumes "2 powi e \<le> x" and "x < 2 powi (e + 1)"
  shows "ilog2 x = e"
proof -
  have "0 < x" using assms(1) powi_pos [of e] by linarith
  from ilog2_bounds [OF this] have "2 powi ilog2 x \<le> x" "x < 2 powi (ilog2 x + 1)" by auto
  with assms have "(2::rat) powi ilog2 x < 2 powi (e + 1)" "(2::rat) powi e < 2 powi (ilog2 x + 1)"
    by linarith+
  then have "ilog2 x < e + 1" "e < ilog2 x + 1" by (auto dest: powi_less_cancel)
  then show ?thesis by simp
qed

lemma rne_eqI:
  assumes "\<bar>x - of_int k\<bar> < 1 / 2 \<or> (\<bar>x - of_int k\<bar> = 1 / 2 \<and> even k)"
  shows "rne x = k"
proof -
  consider (lo) "of_int k \<le> x" "x - of_int k < 1 / 2"
    | (hi) "x < of_int k" "of_int k - x < 1 / 2"
    | (tie_up) "x - of_int k = 1 / 2" "even k"
    | (tie_down) "of_int k - x = 1 / 2" "even k"
    using assms by (cases "of_int k \<le> x") (auto simp: abs_if split: if_splits)
  then show ?thesis
  proof cases
    case lo
    then have "\<lfloor>x\<rfloor> = k" by (intro floor_unique) auto
    with lo show ?thesis by (simp add: rne_def)
  next
    case hi
    then have f: "\<lfloor>x\<rfloor> = k - 1" by (intro floor_unique) auto
    with hi show ?thesis by (simp add: rne_def)
  next
    case tie_up
    then have "\<lfloor>x\<rfloor> = k" by (intro floor_unique) auto
    with tie_up show ?thesis by (simp add: rne_def)
  next
    case tie_down
    then have "\<lfloor>x\<rfloor> = k - 1" by (intro floor_unique) auto
    with tie_down show ?thesis by (simp add: rne_def)
  qed
qed

lemma rne_of_int [simp]: "rne (of_int k) = k"
  by (rule rne_eqI) simp

lemma rne_bound:
  assumes "\<bar>x\<bar> \<le> of_int n"
  shows "\<bar>rne x\<bar> \<le> n"
proof -
  have "\<lfloor>x\<rfloor> \<le> n" using assms by (simp add: floor_le_iff abs_le_iff)
  moreover have "- n \<le> \<lfloor>x\<rfloor>" using assms by (simp add: le_floor_iff abs_le_iff) 
  moreover have "x - of_int \<lfloor>x\<rfloor> \<noteq> 0 \<Longrightarrow> \<lfloor>x\<rfloor> + 1 \<le> n"
  proof -
    assume "x - of_int \<lfloor>x\<rfloor> \<noteq> 0"
    then have "of_int \<lfloor>x\<rfloor> < x" using of_int_floor_le [of x] by linarith
    with assms have "of_int \<lfloor>x\<rfloor> < (of_int n :: rat)" by (simp add: abs_le_iff)
    then show ?thesis by simp
  qed
  ultimately show ?thesis by (auto simp: rne_def abs_le_iff)
qed

lemma round64_eqI:
  assumes "x \<noteq> 0" and "2 powi e \<le> \<bar>x\<bar>" and "\<bar>x\<bar> < 2 powi (e + 1)"
    and "q = max (e - 52) (- 1074)"
    and "\<bar>x / 2 powi q - of_int k\<bar> < 1 / 2 \<or> (\<bar>x / 2 powi q - of_int k\<bar> = 1 / 2 \<and> even k)"
    and "\<bar>of_int k * 2 powi q\<bar> < (2::rat) powi 1024"
  shows "round64 x = Fin (of_int k * 2 powi q)"
proof -
  have "quantum x = q" using assms(2,3,4) by (simp add: quantum_def ilog2_unique)
  moreover have "rne (x / 2 powi q) = k" using assms(5) by (rule rne_eqI)
  ultimately show ?thesis using assms(1,6) by (simp add: round64_def)
qed

lemma powi_le_cancel: "(2::rat) powi a \<le> 2 powi b \<Longrightarrow> a \<le> b"
  using power_int_strict_increasing [of b a "2::rat"] by (cases "a \<le> b") auto

lemma round64_exact:
  assumes "- 1074 \<le> q" and "\<bar>k\<bar> \<le> 2 ^ 53" and "\<bar>of_int k * 2 powi q\<bar> < (2::rat) powi 1024"
  shows "round64 (of_int k * 2 powi q) = Fin (of_int k * 2 powi q)"
proof (cases "k = 0")
  case True
  then show ?thesis by (simp add: round64_def)
next
  case False
  define y :: rat where "y = of_int k * 2 powi q"
  define Q where "Q = quantum y"
  have ay: "\<bar>y\<bar> = of_int \<bar>k\<bar> * 2 powi q" by (simp add: y_def abs_mult)
  have ypos: "0 < \<bar>y\<bar>" using False by (simp add: y_def)
  from ilog2_bounds [OF ypos] have e: "2 powi ilog2 \<bar>y\<bar> \<le> \<bar>y\<bar>" by simp
  have "\<exists>j. y = of_int j * 2 powi Q"
  proof (cases "\<bar>k\<bar> < 2 ^ 53")
    case True
    then have "(of_int \<bar>k\<bar> :: rat) < of_int (2 ^ 53)" by (simp only: of_int_less_iff)
    then have "\<bar>y\<bar> < 2 ^ 53 * 2 powi q" by (simp add: ay)
    also have "\<dots> = 2 powi (53 + q)" by (simp add: power_int_add)
    finally have "(2::rat) powi ilog2 \<bar>y\<bar> < 2 powi (53 + q)" using e by linarith
    then have "ilog2 \<bar>y\<bar> < 53 + q" by (rule powi_less_cancel)
    then have "Q \<le> q" using assms(1) by (simp add: Q_def quantum_def)
    then have "(2::rat) powi q = 2 powi (q - Q) * 2 powi Q"
      by (simp flip: power_int_add)
    also have "(2::rat) powi (q - Q) = of_int (2 ^ nat (q - Q))"
      using \<open>Q \<le> q\<close> by (simp add: power_int_def)
    finally have "y = of_int (k * 2 ^ nat (q - Q)) * 2 powi Q"
      by (simp add: y_def)
    then show ?thesis by blast
  next
    case False
    with assms(2) have k: "\<bar>k\<bar> = 2 ^ 53" by simp
    then have "\<bar>y\<bar> = 2 ^ 53 * 2 powi q" by (simp add: ay)
    also have "\<dots> = 2 powi (53 + q)" by (simp add: power_int_add)
    finally have yq: "\<bar>y\<bar> = 2 powi (53 + q)" .
    have "ilog2 \<bar>y\<bar> = 53 + q"
      by (rule ilog2_unique) (simp_all add: yq power_int_strict_increasing)
    then have Q: "Q = q + 1" using assms(1) by (simp add: Q_def quantum_def)
    have "even k" using k by (metis even_abs_add_iff even_add even_numeral even_power zero_less_numeral)
    then obtain j where j: "k = 2 * j" by (auto elim: evenE)
    have "(2::rat) powi (q + 1) = 2 * 2 powi q" by (simp add: power_int_add)
    then have "y = of_int j * 2 powi Q" by (simp add: y_def Q j)
    then show ?thesis by blast
  qed
  then obtain j where j: "y = of_int j * 2 powi Q" by blast
  then have "y / 2 powi Q = of_int j" by simp
  then have "rne (y / 2 powi quantum y) = j" by (simp add: Q_def)
  with j have val: "of_int (rne (y / 2 powi quantum y)) * 2 powi quantum y = y"
    by (simp add: Q_def)
  have "y \<noteq> 0" using ypos by simp
  moreover have "\<not> (2::rat) powi 1024 \<le> \<bar>y\<bar>" using assms(3) by (simp add: y_def)
  ultimately have "round64 y = Fin y"
    unfolding round64_def val by (simp only: if_False)
  then show ?thesis by (simp add: y_def)
qed

lemma round64_zero [simp]: "round64 0 = Fin 0"
  by (simp add: round64_def)

lemma quantum_ge: "- 1074 \<le> quantum x"
  by (simp add: quantum_def)

lemma round64_repr:
  assumes "round64 x = Fin y"
  shows "\<exists>k q. y = of_int k * 2 powi q \<and> - 1074 \<le> q \<and> \<bar>k\<bar> \<le> 2 ^ 53 \<and>
           \<bar>of_int k * 2 powi q\<bar> < (2::rat) powi 1024"
proof (cases "x = 0")
  case True
  with assms have "y = of_int 0 * 2 powi 0" by (auto simp: round64_def)
  then show ?thesis by (intro exI [of _ 0]) simp
next
  case False
  define q where "q = quantum x"
  define k where "k = rne (x / 2 powi q)"
  have y: "y = of_int k * 2 powi q" and small: "\<bar>of_int k * 2 powi q\<bar> < (2::rat) powi 1024"
    using assms False by (auto simp: round64_def q_def k_def split: if_splits)
  have xpos: "0 < \<bar>x\<bar>" using False by simp
  from ilog2_bounds [OF xpos] have "\<bar>x\<bar> < 2 powi (ilog2 \<bar>x\<bar> + 1)" by simp
  also have "(2::rat) powi (ilog2 \<bar>x\<bar> + 1) \<le> 2 powi (53 + q)"
    by (rule power_int_increasing) (simp_all add: q_def quantum_def)
  also have "\<dots> = 2 ^ 53 * 2 powi q" by (simp add: power_int_add)
  finally have "\<bar>x\<bar> / 2 powi q < 2 ^ 53" by (simp add: pos_divide_less_eq)
  then have "\<bar>x / 2 powi q\<bar> \<le> of_int (2 ^ 53)" by (simp add: abs_divide)
  then have "\<bar>k\<bar> \<le> 2 ^ 53" unfolding k_def by (rule rne_bound)
  moreover have "- 1074 \<le> q" by (simp add: q_def quantum_ge)
  ultimately show ?thesis using small y by blast
qed

lemma round64_idem:
  assumes "round64 x = Fin y"
  shows "round64 y = Fin y"
proof -
  from round64_repr [OF assms] obtain k q where
    "y = of_int k * 2 powi q" "- 1074 \<le> q" "\<bar>k\<bar> \<le> 2 ^ 53"
    "\<bar>of_int k * 2 powi q\<bar> < (2::rat) powi 1024"
    by blast
  then show ?thesis by (simp only: round64_exact)
qed

lemma round64_uminus:
  assumes "round64 y = Fin y"
  shows "round64 (- y) = Fin (- y)"
proof -
  from round64_repr [OF assms] obtain k q where
    y: "y = of_int k * 2 powi q" and "- 1074 \<le> q" "\<bar>k\<bar> \<le> 2 ^ 53"
    "\<bar>of_int k * 2 powi q\<bar> < (2::rat) powi 1024"
    by blast
  then have "round64 (of_int (- k) * 2 powi q) = Fin (of_int (- k) * 2 powi q)"
    by (intro round64_exact) simp_all
  then show ?thesis by (simp add: y)
qed

lemma isFloat64_round64 [simp]: "isFloat64 (round64 x)"
  by (cases "round64 x") (auto simp: isFloat64_def dest: round64_idem)

lemma isFloat64_simps [simp]:
  "isFloat64 PosInf" "isFloat64 NegInf" "isFloat64 NaN" "isFloat64 (Fin 0)"
  by (simp_all add: isFloat64_def)

lemma isFloat64_neg: "isFloat64 x \<Longrightarrow> isFloat64 (f64neg x)"
  by (cases x) (simp_all add: isFloat64_def round64_uminus)

lemma isFloat64_add [simp]: "isFloat64 (f64add x y)"
  by (cases x; cases y) simp_all

lemma isFloat64_of_int [simp]: "isFloat64 (float64_of_int n)"
  by (simp add: float64_of_int_def)

lemma isFloat64_div: "isFloat64 x \<Longrightarrow> isFloat64 (f64div x y)"
  by (cases x; cases y) simp_all

lemma isFloat64_mul: "isFloat64 x \<Longrightarrow> isFloat64 y \<Longrightarrow> isFloat64 (f64mul x y)"
  by (cases x; cases y) (simp_all add: isFloat64_neg)

lemma f64add_zero: "isFloat64 x \<Longrightarrow> f64add x (Fin 0) = x"
  by (cases x) (simp_all add: isFloat64_def)

lemma float64_of_int_zero [simp]: "float64_of_int 0 = Fin 0"
  by (simp add: float64_of_int_def)

lemma f64div_zero [simp]: "f64div (Fin 0) (Fin 1000000) = Fin 0"
  by simp

section \<open>The effect of one record, field by field\<close>

lemmas processRecord_unfold =
  processRecord_def Let_def updateCampaign_def updateBreakdowns_def updateTotals_def
  updateTimeRange_def

lemma processRecord_TotalBidAmount:
  "TotalBidAmount (processRecord cm r s) =
     f64add (TotalBidAmount s)
       (f64div (float64_of_int (fst (ParseInt (getValueSafely cm r ''BID_PRICE_MICROS_USD''))))
          (Fin 1000000))"
  by (simp add: processRecord_unfold)

lemma processRecord_TotalWinCost:
  "TotalWinCost (processRecord cm r s) =
     f64add (TotalWinCost s)
       (f64div (float64_of_int (fst (ParseInt (getValueSafely cm r ''WIN_COST_MICROS_USD''))))
          (Fin 1000000))"
  by (simp add: processRecord_unfold)



lemma processRecord_TimeRange:
  "TimeRange (processRecord cm r s) =
     TimeRange (updateTimeRange (parseBidTime (getValueSafely cm r ''BID_TIME'')) s)"
  by (simp add: processRecord_def Let_def updateCampaign_def updateBreakdowns_def updateTotals_def)


lemma processRecord_CampaignPerformance:
  "CampaignPerformance (processRecord cm r s) =
     (if getValueSafely cm r ''CAMPAIGN_ID'' \<noteq> []
      then (CampaignPerformance s)
             (getValueSafely cm r ''CAMPAIGN_ID'' \<mapsto>
                bumpCampaign (fst (ParseInt (getValueSafely cm r ''WIN_COST_MICROS_USD'')))
                  (fst (Atoi (getValueSafely cm r ''CLICKS'')))
                  (fst (Atoi (getValueSafely cm r ''CONVERSIONS'')))
                  (lookupCampaign (CampaignPerformance s) (getValueSafely cm r ''CAMPAIGN_ID'')))
      else CampaignPerformance s)"
  by (simp add: processRecord_unfold)

lemma finalize_fields:
  "TotalBidAmount (finalize s) = TotalBidAmount s"
  "TotalWinCost (finalize s) = TotalWinCost s"
  "TotalClicks (finalize s) = TotalClicks s"
  "TimeRange (finalize s) = TimeRange s"
  "HourlyBreakdown (finalize s) = HourlyBreakdown s"
  "CampaignPerformance (finalize s) k = map_option finalizeCampaign (CampaignPerformance s k)"
  by (simp_all add: finalize_def)

section \<open>The time range and the hourly breakdown\<close>


lemma updateTimeRange_TimeRange:
  "TimeRange (updateTimeRange t s) =
     (if IsZero t then TimeRange s
      else (if Before t (fst (TimeRange s)) then t else fst (TimeRange s),
            if After t (snd (TimeRange s)) then t else snd (TimeRange s)))"
  by (simp add: updateTimeRange_def)
















section \<open>The campaign map\<close>

lemma campInv_init: "campInv 0 initSummary"
  by (simp add: campInv_def initSummary_def)

lemma unat_succ: "unat (x :: go_int) \<le> n \<Longrightarrow> n < 2 ^ 63 \<Longrightarrow> unat (x + 1) = unat x + 1"
  by (simp add: unat_word_ariths)

lemma campInv_step:
  assumes "campInv n s" and "n < 2 ^ 63"
  shows "campInv (Suc n) (processRecord cm r s)"
  unfolding campInv_def
proof (intro allI impI)
  fix k m
  assume km: "CampaignPerformance (processRecord cm r s) k = Some m"
  let ?cid = "getValueSafely cm r ''CAMPAIGN_ID''"
  let ?old = "lookupCampaign (CampaignPerformance s) ?cid"
  show "k \<noteq> [] \<and> 1 \<le> unat (Impressions m) \<and> unat (Impressions m) \<le> Suc n \<and>
        CampaignCTR m = Fin 0"
  proof (cases "?cid \<noteq> [] \<and> k = ?cid")
    case True
    with km have m: "m = bumpCampaign (fst (ParseInt (getValueSafely cm r ''WIN_COST_MICROS_USD'')))
                  (fst (Atoi (getValueSafely cm r ''CLICKS'')))
                  (fst (Atoi (getValueSafely cm r ''CONVERSIONS''))) ?old"
      by (simp add: processRecord_CampaignPerformance)
    have old: "unat (Impressions ?old) \<le> n \<and> CampaignCTR ?old = Fin 0"
      using assms(1)
      by (auto simp: lookupCampaign_def zeroCampaign_def campInv_def split: option.splits)
    then have "unat (Impressions ?old + 1) = unat (Impressions ?old) + 1"
      using assms(2) unat_succ [of "Impressions ?old" n] by simp
    with old True show ?thesis by (simp add: m bumpCampaign_def)
  next
    case False
    with km have "CampaignPerformance s k = Some m"
      by (auto simp: processRecord_CampaignPerformance split: if_splits)
    with assms(1) show ?thesis by (fastforce simp: campInv_def)
  qed
qed

lemma campInv_foldl:
  "campInv n s \<Longrightarrow> n + length rows < 2 ^ 63 \<Longrightarrow>
     campInv (n + length rows) (foldl (\<lambda>s r. processRecord cm r s) s rows)"
proof (induction rows arbitrary: n s)
  case Nil
  then show ?case by simp
next
  case (Cons r rows)
  from Cons.prems have "campInv (Suc n) (processRecord cm r s)"
    by (intro campInv_step) simp_all
  from Cons.IH [OF this] Cons.prems(2) show ?case by simp
qed





lemma round64_int: "\<bar>k\<bar> \<le> 2 ^ 53 \<Longrightarrow> round64 (of_int k) = Fin (of_int k)"
proof -
  assume k: "\<bar>k\<bar> \<le> 2 ^ 53"
  then have "\<bar>(of_int k :: rat)\<bar> \<le> of_int (2 ^ 53)"
    by (simp only: of_int_abs [symmetric] of_int_le_iff)
  then have "\<bar>(of_int k :: rat) * 2 powi 0\<bar> < 2 powi 1024" by simp
  with k round64_exact [of 0 k] show ?thesis by simp
qed

section \<open>The example inputs\<close>

lemma validate_exampleHeader:
  "validateCols pick requiredCols (fillColMap 0 exampleHeader []) = Inr exampleColMap"
  by (simp add: exampleColMap_def exampleHeader_def requiredCols_def)

lemma length_exampleHeader: "length exampleHeader = 16"
  by (simp add: exampleHeader_def requiredCols_def)

lemma length_exampleRow: "length (exampleRow bidPrice bidTime campaignID clicks winCost) = 16"
  by (simp add: exampleRow_def)

lemma ParseBeeswaxLog_exampleInput: "ParseBeeswaxLog pick exampleInput = Inr exampleSummary"
  unfolding exampleInput_def exampleSummary_def
  by (rule ParseBeeswaxLog_ok [OF validate_exampleHeader])
     (simp add: twoRows_def length_exampleHeader length_exampleRow)

lemmas char_eval = upperByte_def char_of_def bit_Suc_0_iff

lemma shuffled_caseVariant: "\<forall>c\<in>set requiredCols. \<exists>h\<in>set shuffledHeader. caseVariant h c"
  by (simp add: requiredCols_def shuffledHeader_def caseVariant_def sameFold_def char_eval)

lemma noClicks_missing:
  "\<forall>h\<in>set headerWithoutClicks. h \<noteq> ''CLICKS'' \<and> ToUpper h \<noteq> ''CLICKS''"
  by (simp add: headerWithoutClicks_def upperByte_def)

lemma validate_headerWithoutClicks:
  "validateCols pick requiredCols (fillColMap 0 headerWithoutClicks []) =
     Inl (RequiredColumnNotFound ''CLICKS'')"
  by (simp add: requiredCols_def headerWithoutClicks_def upperByte_def)

subsection \<open>Cells of the example rows\<close>

lemma exampleColMap_lookup:
  "map_of exampleColMap ''BID_PRICE_MICROS_USD'' = Some 2"
  "map_of exampleColMap ''BID_TIME'' = Some 3"
  "map_of exampleColMap ''CAMPAIGN_ID'' = Some 4"
  "map_of exampleColMap ''CLICKS'' = Some 6"
  "map_of exampleColMap ''CONVERSIONS'' = Some 7"
  "map_of exampleColMap ''DOMAIN'' = Some 9"
  "map_of exampleColMap ''GEO_COUNTRY'' = Some 10"
  "map_of exampleColMap ''PLATFORM_DEVICE_TYPE'' = Some 12"
  "map_of exampleColMap ''PLATFORM_BROWSER'' = Some 13"
  "map_of exampleColMap ''PLATFORM_OS'' = Some 14"
  "map_of exampleColMap ''WIN_COST_MICROS_USD'' = Some 15"
  by (simp_all add: exampleColMap_def exampleHeader_def requiredCols_def)

lemma exampleRow_cells:
  "getValueSafely exampleColMap (exampleRow bidPrice bidTime campaignID clicks winCost) ''BID_PRICE_MICROS_USD'' = bidPrice"
  "getValueSafely exampleColMap (exampleRow bidPrice bidTime campaignID clicks winCost) ''BID_TIME'' = bidTime"
  "getValueSafely exampleColMap (exampleRow bidPrice bidTime campaignID clicks winCost) ''CAMPAIGN_ID'' = campaignID"
  "getValueSafely exampleColMap (exampleRow bidPrice bidTime campaignID clicks winCost) ''CLICKS'' = clicks"
  "getValueSafely exampleColMap (exampleRow bidPrice bidTime campaignID clicks winCost) ''CONVERSIONS'' = []"
  "getValueSafely exampleColMap (exampleRow bidPrice bidTime campaignID clicks winCost) ''DOMAIN'' = []"
  "getValueSafely exampleColMap (exampleRow bidPrice bidTime campaignID clicks winCost) ''GEO_COUNTRY'' = []"
  "getValueSafely exampleColMap (exampleRow bidPrice bidTime campaignID clicks winCost) ''PLATFORM_DEVICE_TYPE'' = []"
  "getValueSafely exampleColMap (exampleRow bidPrice bidTime campaignID clicks winCost) ''PLATFORM_BROWSER'' = []"
  "getValueSafely exampleColMap (exampleRow bidPrice bidTime campaignID clicks winCost) ''PLATFORM_OS'' = []"
  "getValueSafely exampleColMap (exampleRow bidPrice bidTime campaignID clicks winCost) ''WIN_COST_MICROS_USD'' = winCost"
  by (simp_all add: getValueSafely_def exampleColMap_lookup exampleRow_def)

lemma ParseInt_empty [simp]: "ParseInt [] = (0, Some ErrSyntax)"
  by (simp add: ParseInt_def)

lemma processRecord_exampleRow:
  "processRecord exampleColMap (exampleRow bidPrice bidTime campaignID clicks winCost) s =
     updateCampaign campaignID (fst (ParseInt winCost)) (fst (Atoi clicks)) 0
       (updateTotals (fst (ParseInt bidPrice)) (fst (ParseInt winCost)) (fst (Atoi clicks)) 0
          (updateTimeRange (parseBidTime bidTime) s))"
  by (simp add: processRecord_def Let_def exampleRow_cells updateBreakdowns_def Atoi_def)

subsection \<open>Timestamps of the example rows\<close>

lemmas time_eval =
  parseBidTime_def time_Parse_def layoutSeconds_def layoutMillis_def Date_def nextIsFrac_def
  getnum_def isDigit_def digitVal_def atoi_def daysIn_def isLeap_def commaOrPeriod_def
  parseNanoseconds_def cutspace_def zeroTime_def

lemma parse_1969: "parseBidTime ''1969-12-31 23:59:59'' = Date 1969 12 31 23 59 59 0"
  by (simp add: time_eval)





lemmas order_eval = IsZero_def zeroTime_def Before_def After_def timeKey_def Date_def






subsection \<open>The two-row example\<close>

lemma float64_of_int_small:
  "float64_of_int 0 = Fin 0" "float64_of_int 1 = Fin 1" "float64_of_int 2 = Fin 2"
  using round64_int [of 1] round64_int [of 2] by (simp_all add: float64_of_int_def)

lemma round64_small:
  "round64 (1 / 2) = Fin (1 / 2)" "round64 50 = Fin 50"
proof -
  have "round64 (of_int 1 * 2 powi (- 1)) = Fin (of_int 1 * 2 powi (- 1))"
    by (rule round64_exact) simp_all
  then show "round64 (1 / 2) = Fin (1 / 2)" by (simp add: power_int_minus)
  show "round64 50 = Fin 50" using round64_int [of 50] by simp
qed

lemmas strconv_eval =
  Atoi_def ParseInt_def ParseUint_def isDigit_def digitVal_def maxUint64_def

lemma exampleSummary_c1:
  "\<exists>m. CampaignPerformance exampleSummary ''c1'' = Some m \<and> Impressions m = 2 \<and> Clicks m = 1"
  by (simp add: exampleSummary_def twoRows_def finalize_fields
      processRecord_CampaignPerformance exampleRow_cells initSummary_def bumpCampaign_def
      lookupCampaign_def zeroCampaign_def finalizeCampaign_def strconv_eval)

lemma length_exampleInput: "length exampleInput = 3"
  by (simp add: exampleInput_def twoRows_def)


chapter \<open>The claims\<close>

text \<open>
  Claim C1 says that a data row is never rejected and that a cell missing from a row
  reads as the empty string. The reader of the parser is left at its default, which
  fixes the number of fields of every record to that of the header: a row with fewer
  (or more) cells than the header makes \<^verbatim>\<open>Read\<close> fail, and the parser returns that
  error instead of a summary. Here the header has 16 columns and the data row two.
\<close>

theorem short_row_is_rejected:
  "ParseBeeswaxLog pick [Fields exampleHeader, Fields [''a1'', ''x1'']] =
     Inl (ErrorReadingRecord ErrFieldCount)"
  by (simp add: ParseBeeswaxLog_header validate_exampleHeader parseRecords_Fields
      length_exampleHeader)

text \<open>
  Claim C2. A header that has each of the 16 required column names, in any position and
  in any letter case, passes the schema resolution: every required column gets the
  index of a header token, the token of that very name when there is one, and otherwise
  one whose upper case is the name; the parser then goes on to the data rows and never
  reports a missing column. A header in which some required column has no token, neither
  by its exact name nor by upper case, makes the parser fail with the error naming such
  a column, whatever follows the header.
\<close>

theorem header_resolution:
  "((\<forall>c\<in>set requiredCols. \<exists>h\<in>set header. caseVariant h c) \<longrightarrow>
      (\<exists>colMap.
         validateCols pick requiredCols (fillColMap 0 header []) = Inr colMap \<and>
         (\<forall>c\<in>set requiredCols. \<exists>i<length header.
            map_of colMap c = Some i \<and>
            (if c \<in> set header then header ! i = c else ToUpper (header ! i) = c)) \<and>
         (\<forall>ls. ParseBeeswaxLog pick (Fields header # ls) =
            (case parseRecords colMap
                    \<lparr>FieldsPerRecord = int (length header), pending = ls\<rparr> initSummary of
               Inl err \<Rightarrow> Inl err
             | Inr summary \<Rightarrow> Inr (finalize summary))) \<and>
         (\<forall>ls c. ParseBeeswaxLog pick (Fields header # ls) \<noteq> Inl (RequiredColumnNotFound c)))) \<and>
   ((\<exists>c\<in>set requiredCols. \<forall>h\<in>set header. h \<noteq> c \<and> ToUpper h \<noteq> c) \<longrightarrow>
      (\<exists>c\<in>set requiredCols.
         (\<forall>h\<in>set header. h \<noteq> c \<and> ToUpper h \<noteq> c) \<and>
         (\<forall>ls. ParseBeeswaxLog pick (Fields header # ls) = Inl (RequiredColumnNotFound c))))"
proof (intro conjI impI)
  assume all: "\<forall>c\<in>set requiredCols. \<exists>h\<in>set header. caseVariant h c"
  let ?m0 = "fillColMap 0 header []"
  have keys: "fst ` set ?m0 = set header" by (simp add: fillColMap_keys)
  have "\<forall>c\<in>set requiredCols. \<exists>k\<in>fst ` set ?m0. k = c \<or> ToUpper k = c"
  proof
    fix c assume c: "c \<in> set requiredCols"
    with all obtain h where h: "h \<in> set header" "caseVariant h c" by blast
    from c requiredCols_upper have "\<forall>b\<in>set c. upperByte b = b \<and> (of_char b :: nat) < 128" by blast
    with h(2) have "ToUpper h = c" by (rule caseVariant_ToUpper)
    with h(1) keys show "\<exists>k\<in>fst ` set ?m0. k = c \<or> ToUpper k = c" by blast
  qed
  from validateCols_ok [OF requiredCols_ToUpper this colInv_fill, of pick] obtain cm where
    cm: "validateCols pick requiredCols ?m0 = Inr cm" and inv: "colInv header cm"
    and pres: "\<forall>k j. map_of ?m0 k = Some j \<longrightarrow> map_of cm k = Some j"
    and dom: "\<forall>c\<in>set requiredCols. map_of cm c \<noteq> None"
    by blast
  have idx: "\<forall>c\<in>set requiredCols. \<exists>i<length header.
            map_of cm c = Some i \<and>
            (if c \<in> set header then header ! i = c else ToUpper (header ! i) = c)"
  proof
    fix c assume "c \<in> set requiredCols"
    with dom obtain i where i: "map_of cm c = Some i" by auto
    with inv have "i < length header"
      "header ! i = c \<or> (c \<notin> set header \<and> ToUpper c = c \<and> ToUpper (header ! i) = c)"
      unfolding colInv_def by blast+
    with i show "\<exists>i<length header. map_of cm c = Some i \<and>
            (if c \<in> set header then header ! i = c else ToUpper (header ! i) = c)"
      by (intro exI [of _ i]) auto
  qed
  have run: "ParseBeeswaxLog pick (Fields header # ls) =
            (case parseRecords cm \<lparr>FieldsPerRecord = int (length header), pending = ls\<rparr> initSummary of
               Inl err \<Rightarrow> Inl err
             | Inr summary \<Rightarrow> Inr (finalize summary))" for ls
    by (simp add: ParseBeeswaxLog_header cm)
  have ne: "header \<noteq> []" using cm by (auto simp: validateCols_empty)
  have "ParseBeeswaxLog pick (Fields header # ls) \<noteq> Inl (RequiredColumnNotFound c)" for ls c
  proof
    assume "ParseBeeswaxLog pick (Fields header # ls) = Inl (RequiredColumnNotFound c)"
    then have "parseRecords cm \<lparr>FieldsPerRecord = int (length header), pending = ls\<rparr> initSummary
                 = Inl (RequiredColumnNotFound c)"
      by (simp add: run split: sum.splits)
    with parseRecords_error [of "int (length header)" cm ls initSummary "RequiredColumnNotFound c"] ne
    show False by simp
  qed
  with cm idx run show "\<exists>colMap.
         validateCols pick requiredCols (fillColMap 0 header []) = Inr colMap \<and>
         (\<forall>c\<in>set requiredCols. \<exists>i<length header.
            map_of colMap c = Some i \<and>
            (if c \<in> set header then header ! i = c else ToUpper (header ! i) = c)) \<and>
         (\<forall>ls. ParseBeeswaxLog pick (Fields header # ls) =
            (case parseRecords colMap
                    \<lparr>FieldsPerRecord = int (length header), pending = ls\<rparr> initSummary of
               Inl err \<Rightarrow> Inl err
             | Inr summary \<Rightarrow> Inr (finalize summary))) \<and>
         (\<forall>ls c. ParseBeeswaxLog pick (Fields header # ls) \<noteq> Inl (RequiredColumnNotFound c))"
    by blast
next
  assume "\<exists>c\<in>set requiredCols. \<forall>h\<in>set header. h \<noteq> c \<and> ToUpper h \<noteq> c"
  then obtain c where c: "c \<in> set requiredCols" "\<forall>h\<in>set header. h \<noteq> c \<and> ToUpper h \<noteq> c"
    by blast
  let ?m0 = "fillColMap 0 header []"
  have keys: "fst ` set ?m0 = set header" by (simp add: fillColMap_keys)
  with c(2) have "\<forall>k\<in>fst ` set ?m0. k \<noteq> c \<and> ToUpper k \<noteq> c" by simp
  from validateCols_fail [OF requiredCols_ToUpper c(1) this, of pick] keys obtain c' where
    "c' \<in> set requiredCols" "validateCols pick requiredCols ?m0 = Inl (RequiredColumnNotFound c')"
    "\<forall>h\<in>set header. h \<noteq> c' \<and> ToUpper h \<noteq> c'"
    by auto
  then show "\<exists>c\<in>set requiredCols.
         (\<forall>h\<in>set header. h \<noteq> c \<and> ToUpper h \<noteq> c) \<and>
         (\<forall>ls. ParseBeeswaxLog pick (Fields header # ls) = Inl (RequiredColumnNotFound c))"
    by (intro bexI [of _ c']) (simp_all add: ParseBeeswaxLog_header)
qed

theorem header_resolution_witness:
  "(\<exists>colMap. validateCols (\<lambda>m. 0) requiredCols (fillColMap 0 shuffledHeader []) = Inr colMap \<and>
      ParseBeeswaxLog (\<lambda>m. 0) [Fields shuffledHeader] = Inr (finalize initSummary)) \<and>
   ParseBeeswaxLog (\<lambda>m. 0) [Fields headerWithoutClicks, Malformed]
     = Inl (RequiredColumnNotFound ''CLICKS'')"
proof -
  note ok = header_resolution [of shuffledHeader "\<lambda>m. 0", THEN conjunct1, THEN mp,
      OF shuffled_caseVariant]
  then obtain cm where
    cm: "validateCols (\<lambda>m. 0) requiredCols (fillColMap 0 shuffledHeader []) = Inr cm"
    and run: "\<forall>ls. ParseBeeswaxLog (\<lambda>m. 0) (Fields shuffledHeader # ls) =
            (case parseRecords cm
                    \<lparr>FieldsPerRecord = int (length shuffledHeader), pending = ls\<rparr> initSummary of
               Inl err \<Rightarrow> Inl err
             | Inr summary \<Rightarrow> Inr (finalize summary))"
    by blast
  from run have "ParseBeeswaxLog (\<lambda>m. 0) [Fields shuffledHeader] = Inr (finalize initSummary)"
    by (simp add: parseRecords_Nil)
  moreover
  have "\<exists>c\<in>set requiredCols. \<forall>h\<in>set headerWithoutClicks. h \<noteq> c \<and> ToUpper h \<noteq> c"
    using noClicks_missing by (intro bexI [of _ "''CLICKS''"]) (simp_all add: requiredCols_def)
  note bad = header_resolution [of headerWithoutClicks "\<lambda>m. 0", THEN conjunct2, THEN mp, OF this]
  then obtain c where
    c: "\<forall>ls. ParseBeeswaxLog (\<lambda>m. 0) (Fields headerWithoutClicks # ls) = Inl (RequiredColumnNotFound c)"
    by blast
  then have "ParseBeeswaxLog (\<lambda>m. 0) [Fields headerWithoutClicks] = Inl (RequiredColumnNotFound c)"
    by blast
  then have "c = ''CLICKS''"
    by (simp add: ParseBeeswaxLog_header validate_headerWithoutClicks)
  with c have "ParseBeeswaxLog (\<lambda>m. 0) [Fields headerWithoutClicks, Malformed]
     = Inl (RequiredColumnNotFound ''CLICKS'')"
    by blast
  ultimately show ?thesis using cm by blast
qed




text \<open>
  Claim C5 says that the first row with a valid bid time sets both ends of the time
  range to that time. The range starts at the sentinels 9999-01-01 and 1970-01-01 and an
  end is replaced only by a time strictly before, respectively after, it: a first
  timestamp before 1970 replaces the minimum and leaves the maximum at the sentinel.
\<close>

theorem first_timestamp_before_1970:
  "\<exists>s. ParseBeeswaxLog pick
          [Fields exampleHeader, Fields (exampleRow [] ''1969-12-31 23:59:59'' [] [] [])] = Inr s \<and>
       TimeRange s = (Date 1969 12 31 23 59 59 0, Date 1970 1 1 0 0 0 0)"
proof -
  have "ParseBeeswaxLog pick
          (Fields exampleHeader # map Fields [exampleRow [] ''1969-12-31 23:59:59'' [] [] []]) =
        Inr (finalize (foldl (\<lambda>s r. processRecord exampleColMap r s) initSummary
               [exampleRow [] ''1969-12-31 23:59:59'' [] [] []]))"
    by (rule ParseBeeswaxLog_ok [OF validate_exampleHeader])
       (simp add: length_exampleHeader length_exampleRow)
  moreover have "TimeRange (finalize (foldl (\<lambda>s r. processRecord exampleColMap r s) initSummary
               [exampleRow [] ''1969-12-31 23:59:59'' [] [] []])) =
        (Date 1969 12 31 23 59 59 0, Date 1970 1 1 0 0 0 0)"
    by (simp add: finalize_fields processRecord_TimeRange exampleRow_cells
        updateTimeRange_TimeRange parse_1969 initSummary_def order_eval)
  ultimately show ?thesis by simp
qed

text \<open>
  Claim C6. Whenever the parser returns a summary, its total of records and its total of
  impressions are both the number of data rows of the input, the header not counted.
  The counters are 64-bit integers: they are that number as a machine integer, and
  they are that number exactly for every input of at most \<open>2^63\<close> records (a row takes
  at least 16 bytes, so no file reaches that many).
\<close>

theorem count_invariant:
  "ParseBeeswaxLog pick input = Inr s \<longrightarrow>
     TotalRecords s = word_of_nat (length input - 1) \<and>
     TotalImpressions s = word_of_nat (length input - 1) \<and>
     (length input \<le> 2 ^ 63 \<longrightarrow>
        sint (TotalRecords s) = int (length input - 1) \<and>
        sint (TotalImpressions s) = int (length input - 1))"
proof
  assume "ParseBeeswaxLog pick input = Inr s"
  from ParseBeeswaxLog_Inr [OF this] obtain header rows cm where
    input: "input = Fields header # map Fields rows"
    and s: "s = finalize (foldl (\<lambda>s r. processRecord cm r s) initSummary rows)"
    by blast
  have "TotalRecords s = word_of_nat (length rows)" "TotalImpressions s = word_of_nat (length rows)"
    by (simp_all add: s finalize_counts foldl_counts initSummary_def)
  with input show "TotalRecords s = word_of_nat (length input - 1) \<and>
     TotalImpressions s = word_of_nat (length input - 1) \<and>
     (length input \<le> 2 ^ 63 \<longrightarrow>
        sint (TotalRecords s) = int (length input - 1) \<and>
        sint (TotalImpressions s) = int (length input - 1))"
    by (simp add: sint_of_nat_small)
qed

theorem count_invariant_witness:
  "ParseBeeswaxLog (\<lambda>m. 0) exampleInput = Inr exampleSummary \<and>
   sint (TotalRecords exampleSummary) = 2 \<and> sint (TotalImpressions exampleSummary) = 2"
proof -
  have h: "ParseBeeswaxLog (\<lambda>m. 0) exampleInput = Inr exampleSummary"
    by (rule ParseBeeswaxLog_exampleInput)
  have l: "length exampleInput = 3" by (simp add: exampleInput_def twoRows_def)
  from count_invariant [of "\<lambda>m. 0" exampleInput exampleSummary] h l show ?thesis by simp
qed



text \<open>
  Claim C10. In the summary the parser returns, every entry of the campaign map has a
  non-empty campaign id as its key and at least one impression (and at most as many as
  there are data rows), so the guard of the finalizer holds for it and its click-through
  rate is the one the finalizer computes: clicks by impressions, times 100, in
  \<^verbatim>\<open>float64\<close>. The impressions are a 64-bit counter; the statement is for inputs of at
  most \<open>2^63\<close> records.
\<close>

theorem campaign_entries:
  "ParseBeeswaxLog pick input = Inr s \<and> length input \<le> 2 ^ 63 \<and>
   CampaignPerformance s campaignID = Some m \<longrightarrow>
     campaignID \<noteq> [] \<and> 1 \<le> sint (Impressions m) \<and>
     sint (Impressions m) \<le> int (length input - 1) \<and>
     CampaignCTR m =
       f64mul (f64div (float64_of_int (Clicks m)) (float64_of_int (Impressions m))) (Fin 100)"
proof (intro impI, elim conjE)
  assume run: "ParseBeeswaxLog pick input = Inr s" and len: "length input \<le> 2 ^ 63"
    and m: "CampaignPerformance s campaignID = Some m"
  from ParseBeeswaxLog_Inr [OF run] obtain header rows cm where
    input: "input = Fields header # map Fields rows"
    and s: "s = finalize (foldl (\<lambda>s r. processRecord cm r s) initSummary rows)"
    by blast
  let ?s0 = "foldl (\<lambda>s r. processRecord cm r s) initSummary rows"
  from len input have small: "length rows < 2 ^ 63" by simp
  with campInv_foldl [OF campInv_init, of rows cm] have inv: "campInv (length rows) ?s0" by simp
  from m s obtain m0 where m0: "CampaignPerformance ?s0 campaignID = Some m0"
    and mf: "m = finalizeCampaign m0"
    by (auto simp: finalize_fields)
  from inv m0 have k: "campaignID \<noteq> []" and i1: "1 \<le> unat (Impressions m0)"
    and i2: "unat (Impressions m0) \<le> length rows"
    unfolding campInv_def by blast+
  from i2 small have "unat (Impressions m0) < 2 ^ 63" by simp
  then have si: "sint (Impressions m0) = int (unat (Impressions m0))"
    using sint_of_nat_small [of "unat (Impressions m0)"] by simp
  have pos: "0 < sint (Impressions m0)" using i1 unfolding si by linarith
  then have "m = m0\<lparr>CampaignCTR :=
           f64mul (f64div (float64_of_int (Clicks m0)) (float64_of_int (Impressions m0))) (Fin 100)\<rparr>"
    by (simp add: mf finalizeCampaign_def)
  moreover have "1 \<le> sint (Impressions m0)" using pos by simp
  moreover have "sint (Impressions m0) \<le> int (length rows)" using i2 unfolding si by linarith
  ultimately show "campaignID \<noteq> [] \<and> 1 \<le> sint (Impressions m) \<and>
     sint (Impressions m) \<le> int (length input - 1) \<and>
     CampaignCTR m =
       f64mul (f64div (float64_of_int (Clicks m)) (float64_of_int (Impressions m))) (Fin 100)"
    using k input by simp
qed

theorem campaign_entries_witness:
  "\<exists>m. CampaignPerformance exampleSummary ''c1'' = Some m \<and>
       sint (Impressions m) = 2 \<and> Clicks m = 1 \<and> CampaignCTR m = Fin 50"
proof -
  from exampleSummary_c1 obtain m where
    m: "CampaignPerformance exampleSummary ''c1'' = Some m" "Impressions m = 2" "Clicks m = 1"
    by blast
  from campaign_entries [of "\<lambda>m. 0" exampleInput exampleSummary "''c1''" m]
    ParseBeeswaxLog_exampleInput [of "\<lambda>m. 0"] m(1)
  have "CampaignCTR m =
       f64mul (f64div (float64_of_int (Clicks m)) (float64_of_int (Impressions m))) (Fin 100)"
    by (simp add: length_exampleInput)
  then have "CampaignCTR m = Fin 50"
    by (simp add: m float64_of_int_small round64_small)
  with m show ?thesis by simp
qed

end
